theory Spec2Isabelle
  imports Main
begin

section \<open>JavaScript strings\<close>

text \<open>
  A JavaScript string is a sequence of UTF-16 code units; \<open>length\<close>, \<open>slice\<close>,
  \<open>startsWith\<close> and the regular expressions of \<^verbatim>\<open>src/rules/list-item.js\<close> all
  count code units. Every character the rule names lies in the Basic Multilingual Plane,
  so a code unit is modelled by its number. \<open>js\<close> turns an ASCII literal into such a string.
\<close>

type_synonym jsstring = "nat list"

definition js :: "string \<Rightarrow> jsstring" where
  "js s = map of_char s"

text \<open>The class \<^verbatim>\<open>\s\<close> (which already holds U+00A0), also what \<^verbatim>\<open>trim\<close> removes.\<close>

definition isWhiteSpace :: "nat \<Rightarrow> bool" where
  "isWhiteSpace c =
     (c = 9 \<or> c = 10 \<or> c = 11 \<or> c = 12 \<or> c = 13 \<or> c = 32 \<or> c = 0xA0 \<or> c = 0x1680
      \<or> (0x2000 \<le> c \<and> c \<le> 0x200A)
      \<or> c = 0x2028 \<or> c = 0x2029 \<or> c = 0x202F \<or> c = 0x205F \<or> c = 0x3000 \<or> c = 0xFEFF)"

text \<open>The characters \<^verbatim>\<open>.\<close> does not match (no \<^verbatim>\<open>s\<close> flag is used anywhere).\<close>

definition isLineTerminator :: "nat \<Rightarrow> bool" where
  "isLineTerminator c = (c = 10 \<or> c = 13 \<or> c = 0x2028 \<or> c = 0x2029)"

text \<open>\<^verbatim>\<open>[.!?\u2026]\<close>: the source writes the ellipsis U+2026 itself.\<close>

definition isPunctuation :: "nat \<Rightarrow> bool" where
  "isPunctuation c = (c \<in> set (js ''.!?'') \<or> c = 0x2026)"

text \<open>The class of a straight double quote and the closing curly quote U+201D.\<close>

definition isQuote :: "nat \<Rightarrow> bool" where
  "isQuote c = (c = 0x22 \<or> c = 0x201D)"

text \<open>\<^verbatim>\<open>\w\<close> and \<^verbatim>\<open>\d\<close>.\<close>

definition isDigit :: "nat \<Rightarrow> bool" where
  "isDigit c = (48 \<le> c \<and> c \<le> 57)"

definition isWordChar :: "nat \<Rightarrow> bool" where
  "isWordChar c = ((65 \<le> c \<and> c \<le> 90) \<or> (97 \<le> c \<and> c \<le> 122) \<or> isDigit c \<or> c = 95)"

definition startsWith :: "jsstring \<Rightarrow> jsstring \<Rightarrow> bool" where
  "startsWith s p = (take (length p) s = p)"

definition trimEnd :: "jsstring \<Rightarrow> jsstring" where
  "trimEnd s = rev (dropWhile isWhiteSpace (rev s))"

definition trim :: "jsstring \<Rightarrow> jsstring" where
  "trim s = trimEnd (dropWhile isWhiteSpace s)"

section \<open>Regular expressions\<close>

text \<open>
  The tests of the rule use character classes, sequencing, \<^verbatim>\<open>?\<close>, \<^verbatim>\<open>*\<close>,
  \<^verbatim>\<open>+\<close> and the two anchors. Whether \<^verbatim>\<open>regex.test(s)\<close> holds depends only on
  the language of the expression, so the expressions are matched by derivatives.
\<close>

datatype regex =
    RNone
  | REps
  | RClass "nat \<Rightarrow> bool"
  | RAlt regex regex
  | RSeq regex regex
  | RStar regex

primrec nullable :: "regex \<Rightarrow> bool" where
  "nullable RNone = False"
| "nullable REps = True"
| "nullable (RClass P) = False"
| "nullable (RAlt r s) = (nullable r \<or> nullable s)"
| "nullable (RSeq r s) = (nullable r \<and> nullable s)"
| "nullable (RStar r) = True"

primrec deriv :: "nat \<Rightarrow> regex \<Rightarrow> regex" where
  "deriv c RNone = RNone"
| "deriv c REps = RNone"
| "deriv c (RClass P) = (if P c then REps else RNone)"
| "deriv c (RAlt r s) = RAlt (deriv c r) (deriv c s)"
| "deriv c (RSeq r s) =
     (if nullable r then RAlt (RSeq (deriv c r) s) (deriv c s) else RSeq (deriv c r) s)"
| "deriv c (RStar r) = RSeq (deriv c r) (RStar r)"

primrec matches :: "regex \<Rightarrow> jsstring \<Rightarrow> bool" where
  "matches r [] = nullable r"
| "matches r (c # cs) = matches (deriv c r) cs"

definition RChr :: "char \<Rightarrow> regex" where
  "RChr c = RClass (\<lambda>x. x = of_char c)"

definition RPlus :: "regex \<Rightarrow> regex" where
  "RPlus r = RSeq r (RStar r)"

definition ROpt :: "regex \<Rightarrow> regex" where
  "ROpt r = RAlt REps r"

definition RCat :: "regex list \<Rightarrow> regex" where
  "RCat rs = foldr RSeq rs REps"

definition RAny :: regex where
  "RAny = RStar (RClass (\<lambda>c. True))"

text \<open>\<^verbatim>\<open>.\<close> of the source: any code unit but a line terminator.\<close>

definition RDot :: regex where
  "RDot = RClass (\<lambda>c. \<not> isLineTerminator c)"

text \<open>
  The four shapes of a test: \<^verbatim>\<open>/^r$/\<close>, \<^verbatim>\<open>/^r/\<close>, \<^verbatim>\<open>/r$/\<close> and \<^verbatim>\<open>/r/\<close>.
  An end that is not anchored may be followed or preceded by anything.
\<close>

definition test_whole :: "regex \<Rightarrow> jsstring \<Rightarrow> bool" where
  "test_whole r s = matches r s"

definition test_start :: "regex \<Rightarrow> jsstring \<Rightarrow> bool" where
  "test_start r s = matches (RSeq r RAny) s"

definition test_end :: "regex \<Rightarrow> jsstring \<Rightarrow> bool" where
  "test_end r s = matches (RSeq RAny r) s"

definition test_any :: "regex \<Rightarrow> jsstring \<Rightarrow> bool" where
  "test_any r s = matches (RSeq RAny (RSeq r RAny)) s"

text \<open>The language of an expression, to reason about \<open>matches\<close>.\<close>

inductive_set star :: "jsstring set \<Rightarrow> jsstring set" for A :: "jsstring set" where
  star_nil: "[] \<in> star A"
| star_step: "u \<in> A \<Longrightarrow> v \<in> star A \<Longrightarrow> u @ v \<in> star A"

primrec lang :: "regex \<Rightarrow> jsstring set" where
  "lang RNone = {}"
| "lang REps = {[]}"
| "lang (RClass P) = {[c] | c. P c}"
| "lang (RAlt r s) = lang r \<union> lang s"
| "lang (RSeq r s) = {u @ v | u v. u \<in> lang r \<and> v \<in> lang s}"
| "lang (RStar r) = star (lang r)"

section \<open>The syntax tree\<close>

text \<open>
  A node of the markdown tree (mdast) is an object with a \<^verbatim>\<open>type\<close> and, depending on
  the type, a \<^verbatim>\<open>value\<close> (text, inlineCode, html), an \<^verbatim>\<open>alt\<close> (image), a
  \<^verbatim>\<open>url\<close> (link, image), a \<^verbatim>\<open>depth\<close> (heading) and \<^verbatim>\<open>children\<close>. A field the
  object does not have is \<open>None\<close>; \<open>nurl\<close> and \<open>ndepth\<close> are read only on links and
  headings, which always have them, and a node without children has the empty list.
\<close>

datatype node =
  Node (ntype: string) (nvalue: "jsstring option") (nalt: "jsstring option")
       (nurl: jsstring) (ndepth: nat) (nchildren: "node list")

text \<open>
  \<^verbatim>\<open>toString\<close> of mdast-util-to-string: the value of a node that has one, else the
  alternative text of an image that has some, else the texts of the children joined.
\<close>

fun toString :: "node \<Rightarrow> jsstring" where
  "toString (Node t v a u d cs) =
     (case v of
        Some s \<Rightarrow> s
      | None \<Rightarrow>
          (case a of
             Some s \<Rightarrow> (if s \<noteq> [] then s else concat (map toString cs))
           | None \<Rightarrow> concat (map toString cs)))"

text \<open>\<^verbatim>\<open>{ type: "root", children: description }\<close>\<close>

definition rootOf :: "node list \<Rightarrow> node" where
  "rootOf cs = Node ''root'' None None [] 0 cs"

text \<open>Constructors of the nodes used in examples.\<close>

definition text_node :: "jsstring \<Rightarrow> node" where
  "text_node v = Node ''text'' (Some v) None [] 0 []"

definition inlineCode_node :: "jsstring \<Rightarrow> node" where
  "inlineCode_node v = Node ''inlineCode'' (Some v) None [] 0 []"

definition link_node :: "jsstring \<Rightarrow> node list \<Rightarrow> node" where
  "link_node u cs = Node ''link'' None None u 0 cs"

definition linkReference_node :: "node list \<Rightarrow> node" where
  "linkReference_node cs = Node ''linkReference'' None None [] 0 cs"

definition parent_node :: "string \<Rightarrow> node list \<Rightarrow> node" where
  "parent_node t cs = Node t None None [] 0 cs"

definition heading_node :: "nat \<Rightarrow> node list \<Rightarrow> node" where
  "heading_node d cs = Node ''heading'' None None [] d cs"

section \<open>Collaborators\<close>

text \<open>
  The rule imports four things it does not define: \<^verbatim>\<open>isUrl\<close> (is-url-superb),
  \<^verbatim>\<open>caseOf\<close> (the \<^verbatim>\<open>of\<close> of the case package, \<open>None\<close> for its
  \<^verbatim>\<open>undefined\<close>), \<^verbatim>\<open>emojiRegex\<close> (emoji-regex) and the identifier allow list
  of \<^verbatim>\<open>lib/identifier-allow-list.js\<close>. They are parameters of the model.
  \<open>emojiMatches\<close> gives the successive matches of the global emoji regex in a text,
  left to right, each as (index, length).
\<close>

record env =
  isUrl :: "jsstring \<Rightarrow> bool"
  caseOf :: "jsstring \<Rightarrow> string option"
  emojiMatches :: "jsstring \<Rightarrow> (nat \<times> nat) list"
  identifierAllowList :: "jsstring list"

text \<open>\<^verbatim>\<open>text.replace(emojiRegex(), "")\<close>: the code units of no match stay.\<close>

definition removeEmoji :: "env \<Rightarrow> jsstring \<Rightarrow> jsstring" where
  "removeEmoji ext s =
     map snd (filter (\<lambda>(k, c). \<not> list_ex (\<lambda>(i, l). i \<le> k \<and> k < i + l) (emojiMatches ext s))
                     (enumerate 0 s))"

text \<open>
  \<^verbatim>\<open>textEndsWithEmoji\<close>: the loop keeps the last match; the text ends with an emoji
  when that match is not the empty string and reaches the end of the text.
\<close>

definition textEndsWithEmoji :: "env \<Rightarrow> jsstring \<Rightarrow> bool" where
  "textEndsWithEmoji ext text =
     (case emojiMatches ext text of
        [] \<Rightarrow> False
      | m # ms \<Rightarrow>
          (let (emojiIndex, emojiLength) = last (m # ms)
           in emojiLength \<noteq> 0 \<and> emojiLength + emojiIndex \<ge> length text))"

text \<open>
  \<^verbatim>\<open>text.split(/[- ;./']/).filter(Boolean)\<close>: the pieces between separators, the
  empty ones dropped.
\<close>

definition isSeparator :: "nat \<Rightarrow> bool" where
  "isSeparator c = (c \<in> set (js ''- ;./'') \<or> c = 0x27)"

fun split :: "(nat \<Rightarrow> bool) \<Rightarrow> jsstring \<Rightarrow> jsstring list" where
  "split P [] = [[]]"
| "split P (c # cs) =
     (if P c then [] # split P cs
      else (case split P cs of w # ws \<Rightarrow> (c # w) # ws | [] \<Rightarrow> [[c]]))"

definition tokenizeWords :: "jsstring \<Rightarrow> jsstring list" where
  "tokenizeWords text = filter (\<lambda>w. w \<noteq> []) (split isSeparator text)"

section \<open>The regular expressions of the rule\<close>

text \<open>Characters that cannot stand in a literal here: the backtick, the quotes, the dashes.\<close>

definition backtick :: nat where "backtick = 0x60"
definition enDash :: nat where "enDash = 0x2013"
definition emDash :: nat where "emDash = 0x2014"
definition openingCurlyQuote :: nat where "openingCurlyQuote = 0x201C"

text \<open>\<^verbatim>\<open>/^[\s\u00A0]-[\s\u00A0]/\<close>\<close>

definition reInvalidWhitespace :: "jsstring \<Rightarrow> bool" where
  "reInvalidWhitespace =
     test_start (RCat [RClass (\<lambda>c. isWhiteSpace c \<or> c = 0xA0), RChr CHR ''-'',
                       RClass (\<lambda>c. isWhiteSpace c \<or> c = 0xA0)])"

text \<open>\<^verbatim>\<open>/^\s*[/\u{02013}\u{02014}]/u\<close>\<close>

definition reInvalidDash :: "jsstring \<Rightarrow> bool" where
  "reInvalidDash =
     test_start (RCat [RStar (RClass isWhiteSpace),
                       RClass (\<lambda>c. c = of_char CHR ''/'' \<or> c = enDash \<or> c = emDash)])"

text \<open>\<^verbatim>\<open>/^\s*$/\<close>\<close>

definition reBlank :: "jsstring \<Rightarrow> bool" where
  "reBlank = test_whole (RStar (RClass isWhiteSpace))"

text \<open>\<^verbatim>\<open>/^\s\([^)]+\)\s*$/\<close>\<close>

definition reParenthetical :: "jsstring \<Rightarrow> bool" where
  "reParenthetical =
     test_whole (RCat [RClass isWhiteSpace, RChr CHR ''('',
                       RPlus (RClass (\<lambda>c. c \<noteq> of_char CHR '')'')), RChr CHR '')'',
                       RStar (RClass isWhiteSpace)])"

text \<open>\<^verbatim>\<open>/^\([^)]+\)$/\<close>\<close>

definition reParentheticalOnly :: "jsstring \<Rightarrow> bool" where
  "reParentheticalOnly =
     test_whole (RCat [RChr CHR ''('', RPlus (RClass (\<lambda>c. c \<noteq> of_char CHR '')'')),
                       RChr CHR '')''])"

text \<open>\<^verbatim>\<open>/^`.*[.!?\u2026]*`[.!?\u2026]*$/\<close>\<close>

definition reFullyBackticked :: "jsstring \<Rightarrow> bool" where
  "reFullyBackticked =
     test_whole (RCat [RClass (\<lambda>c. c = backtick), RStar RDot, RStar (RClass isPunctuation),
                       RClass (\<lambda>c. c = backtick), RStar (RClass isPunctuation)])"

text \<open>\<^verbatim>\<open>/^`.+`.+`.+$/\<close>\<close>

definition reMultipleBackticks :: "jsstring \<Rightarrow> bool" where
  "reMultipleBackticks =
     test_whole (RCat [RClass (\<lambda>c. c = backtick), RPlus RDot, RClass (\<lambda>c. c = backtick),
                       RPlus RDot, RClass (\<lambda>c. c = backtick), RPlus RDot])"

text \<open>
  \<^verbatim>\<open>/.*(?<=["\u201D])[.!?\u2026]+$/\<close>, the lookbehind holding the quotes of \<open>isQuote\<close>.
  The match may start anywhere and \<^verbatim>\<open>.*\<close> may be empty, so the lookbehind asks that
  the code unit before the final run of punctuation is a quote.
\<close>

definition reQuoteThenPunctuation :: "jsstring \<Rightarrow> bool" where
  "reQuoteThenPunctuation =
     test_end (RCat [RStar RDot, RClass isQuote, RPlus (RClass isPunctuation)])"

text \<open>\<^verbatim>\<open>/.*[.!?\u2026]["\u201D][.!?\u2026]+$/\<close>\<close>

definition rePunctuationQuotePunctuation :: "jsstring \<Rightarrow> bool" where
  "rePunctuationQuotePunctuation =
     test_end (RCat [RStar RDot, RClass isPunctuation, RClass isQuote,
                     RPlus (RClass isPunctuation)])"

text \<open>\<^verbatim>\<open>/.*[.!?\u2026]["\u201D]?$/\<close>\<close>

definition rePunctuationThenQuote :: "jsstring \<Rightarrow> bool" where
  "rePunctuationThenQuote =
     test_end (RCat [RStar RDot, RClass isPunctuation, ROpt (RClass isQuote)])"

text \<open>\<^verbatim>\<open>/[.!?\u2026]/\<close>\<close>

definition reHasPunctuation :: "jsstring \<Rightarrow> bool" where
  "reHasPunctuation = test_any (RClass isPunctuation)"

text \<open>\<^verbatim>\<open>/\)\s*$/\<close>\<close>

definition reClosingParenthesis :: "jsstring \<Rightarrow> bool" where
  "reClosingParenthesis = test_end (RCat [RChr CHR '')'', RStar (RClass isWhiteSpace)])"

text \<open>\<^verbatim>\<open>/\d/\<close>\<close>

definition reHasDigit :: "jsstring \<Rightarrow> bool" where
  "reHasDigit = test_any (RClass isDigit)"

text \<open>\<^verbatim>\<open>/^["\u201C'(]/\<close>: a straight double quote, U+201C, an apostrophe or a parenthesis.\<close>

definition reOpeningQuote :: "jsstring \<Rightarrow> bool" where
  "reOpeningQuote =
     test_start (RClass (\<lambda>c. c = 0x22 \<or> c = openingCurlyQuote \<or> c = 0x27
                              \<or> c = of_char CHR ''(''))"

section \<open>Diagnostics\<close>

text \<open>
  \<^verbatim>\<open>file.message(text, node)\<close> appends one message to the file. A message is kept as
  its kind and the node it points at (\<open>None\<close> for \<^verbatim>\<open>undefined\<close>); every function
  below returns the messages it emitted, in order, next to its return value.
\<close>

datatype message =
    InvalidListItem
  | InvalidListItemLink
  | InvalidListItemLinkURL
  | InvalidListItemLinkText
  | InvalidWhitespace
  | InvalidDash
  | MissingDash
  | OnlyBadges
  | ProperPunctuation
  | InvalidMarkdown
  | NonEmptyString
  | ValidCasing

fun messageText :: "message \<Rightarrow> string" where
  "messageText InvalidListItem = ''Invalid list item''"
| "messageText InvalidListItemLink = ''Invalid list item link''"
| "messageText InvalidListItemLinkURL = ''Invalid list item link URL''"
| "messageText InvalidListItemLinkText = ''Invalid list item link text''"
| "messageText InvalidWhitespace =
     ''List item link and description separated by invalid whitespace''"
| "messageText InvalidDash =
     ''List item link and description separated by invalid en-dash or em-dash''"
| "messageText MissingDash =
     ''List item link and description must be separated with a dash''"
| "messageText OnlyBadges = ''List item description must not consist of only badges''"
| "messageText ProperPunctuation =
     ''List item description must end with proper punctuation''"
| "messageText InvalidMarkdown = ''List item description contains invalid markdown''"
| "messageText NonEmptyString =
     ''List item description must start with a non-empty string''"
| "messageText ValidCasing = ''List item description must start with valid casing''"

type_synonym diagnostic = "message \<times> node option"

section \<open>The allow lists\<close>

definition listItemPrefixCaseAllowList :: "string list" where
  "listItemPrefixCaseAllowList = [''camel'', ''capital'', ''constant'', ''pascal'', ''upper'']"

definition listItemLinkNodeAllowList :: "string list" where
  "listItemLinkNodeAllowList = [''emphasis'', ''inlineCode'', ''text'']"

definition listItemDescriptionNodeAllowList :: "string list" where
  "listItemDescriptionNodeAllowList =
     [''emphasis'', ''footnoteReference'', ''html'', ''image'', ''inlineCode'', ''link'',
      ''linkReference'', ''strong'', ''text'']"

definition listItemDescriptionSuffixNodeAllowList :: "string list" where
  "listItemDescriptionSuffixNodeAllowList =
     [''emphasis'', ''html'', ''image'', ''link'', ''strong'', ''text'']"

section \<open>The validators\<close>

definition validateListItemLinkChildren :: "node \<Rightarrow> bool \<times> diagnostic list" where
  "validateListItemLinkChildren link =
     (case find (\<lambda>node. ntype node \<notin> set listItemLinkNodeAllowList) (nchildren link) of
        Some node \<Rightarrow> (False, [(InvalidListItemLink, Some node)])
      | None \<Rightarrow> (True, []))"

definition validateListItemLink :: "env \<Rightarrow> node \<Rightarrow> bool \<times> diagnostic list" where
  "validateListItemLink ext link =
     (if ntype link = ''linkReference'' then (True, [])
      else if ntype link \<noteq> ''link'' then (False, [(InvalidListItemLink, Some link)])
      else if \<not> isUrl ext (nurl link) then (False, [(InvalidListItemLinkURL, Some link)])
      else if toString link = [] then (False, [(InvalidListItemLinkText, Some link)])
      else (True, []))"

definition validateListItemSpecialCases :: "env \<Rightarrow> node list \<Rightarrow> jsstring \<Rightarrow> bool" where
  "validateListItemSpecialCases ext description descriptionText =
     (if startsWith descriptionText (js '' - '') then False
      else
        let text = trim (removeEmoji ext descriptionText) in
        if text = [] then True
        else if reParenthetical descriptionText then True
        else if reParentheticalOnly text then True
        else False)"

text \<open>
  \<^verbatim>\<open>prefix.value\<close> is read on the dash node only, which is a text node by then and
  so has a value.
\<close>

definition valueOf :: "node \<Rightarrow> jsstring" where
  "valueOf n = (case nvalue n of Some v \<Rightarrow> v | None \<Rightarrow> [])"

definition validateListItemPrefixCasing :: "env \<Rightarrow> node \<Rightarrow> bool \<times> diagnostic list" where
  "validateListItemPrefixCasing ext prefix =
     (let strippedPrefix = drop 3 (valueOf prefix) in
      case tokenizeWords strippedPrefix of
        [] \<Rightarrow> (False, [(NonEmptyString, Some prefix)])
      | firstWord # rest \<Rightarrow>
          if (case caseOf ext (filter isWordChar firstWord) of
                Some style \<Rightarrow> style \<notin> set listItemPrefixCaseAllowList
              | None \<Rightarrow> True)
             \<and> \<not> reHasDigit firstWord
             \<and> \<not> reOpeningQuote firstWord
             \<and> firstWord \<notin> set (identifierAllowList ext)
          then (False, [(ValidCasing, Some prefix)])
          else (True, []))"

definition validateListItemPrefix :: "env \<Rightarrow> jsstring \<Rightarrow> jsstring \<Rightarrow> bool" where
  "validateListItemPrefix ext descriptionText prefixText =
     (if startsWith prefixText (js '' - '') then True
      else if textEndsWithEmoji ext prefixText \<and> descriptionText = prefixText then True
      else False)"

text \<open>
  \<^verbatim>\<open>textEndsWithEmoji(tokens.at(-1))\<close>: with no token the argument is
  \<^verbatim>\<open>undefined\<close>, the regex is run on the word "undefined", which holds no emoji, and
  the answer is false.
\<close>

definition lastTokenEndsWithEmoji :: "env \<Rightarrow> jsstring list \<Rightarrow> bool" where
  "lastTokenEndsWithEmoji ext tokens =
     (case tokens of [] \<Rightarrow> False | t # ts \<Rightarrow> textEndsWithEmoji ext (last (t # ts)))"

definition validateListItemSuffix :: "env \<Rightarrow> jsstring \<Rightarrow> jsstring \<Rightarrow> bool" where
  "validateListItemSuffix ext descriptionText suffixText =
     (if reFullyBackticked descriptionText then
        (if reMultipleBackticks descriptionText then True else False)
      else if reQuoteThenPunctuation descriptionText then
        (if rePunctuationQuotePunctuation descriptionText then False else True)
      else if rePunctuationThenQuote descriptionText then True
      else if \<not> reHasPunctuation descriptionText
              \<and> (let tokens = tokenizeWords descriptionText
                  in length tokens > 2 \<or> \<not> lastTokenEndsWithEmoji ext tokens)
      then False
      else if reClosingParenthesis suffixText then True
      else if textEndsWithEmoji ext suffixText then True
      else False)"

text \<open>
  The badges: the loop that walks \<^verbatim>\<open>lastNonBadgeIndex\<close> down from the last index
  while the node there is an inlineCode or a blank text.
\<close>

definition isBadge :: "node \<Rightarrow> bool" where
  "isBadge n = (ntype n = ''inlineCode'' \<or> (ntype n = ''text'' \<and> reBlank (toString n)))"

function lastNonBadgeLoop :: "node list \<Rightarrow> int \<Rightarrow> int" where
  "lastNonBadgeLoop description i =
     (if i \<ge> 0 \<and> isBadge (description ! nat i) then lastNonBadgeLoop description (i - 1)
      else i)"
  by pat_completeness auto
termination
  by (relation "measure (\<lambda>(description, i). nat (i + 1))") auto

declare lastNonBadgeLoop.simps [simp del]

definition hasBadges :: "node list \<Rightarrow> nat \<Rightarrow> bool" where
  "hasBadges description lastNonBadgeIndex =
     (int lastNonBadgeIndex < int (length description) - 1)"

definition beforeBadges :: "node list \<Rightarrow> nat \<Rightarrow> node list" where
  "beforeBadges description lastNonBadgeIndex = take (lastNonBadgeIndex + 1) description"

definition lastSuffixText :: "node list \<Rightarrow> nat \<Rightarrow> jsstring" where
  "lastSuffixText description lastNonBadgeIndex =
     (let t = toString (rootOf (beforeBadges description lastNonBadgeIndex))
      in if hasBadges description lastNonBadgeIndex then trimEnd t else t)"

text \<open>
  \<^verbatim>\<open>dash.length\<close>: \<^verbatim>\<open>dash\<close> is the node, not its text, and a node has no
  \<^verbatim>\<open>length\<close>; the read gives \<^verbatim>\<open>undefined\<close>, and \<^verbatim>\<open>undefined > 3\<close> is false.
\<close>

definition nodeLength :: "node \<Rightarrow> nat option" where
  "nodeLength n = None"

text \<open>
  \<^verbatim>\<open>validateListItemDescription\<close> returns \<^verbatim>\<open>undefined\<close> (\<open>None\<close>) on the empty
  description and a boolean otherwise. \<^verbatim>\<open>dash === suffixWithoutBadge\<close> compares two
  elements of the same array of distinct objects: they are the same when the index is 0.
\<close>

definition validateListItemDescription :: "env \<Rightarrow> node list \<Rightarrow> bool option \<times> diagnostic list" where
  "validateListItemDescription ext description =
     (if length description = 0 then (None, [])
      else
        let descriptionText = toString (rootOf description) in
        if validateListItemSpecialCases ext description descriptionText then (Some True, [])
        else
          let dash = description ! 0; dashText = toString dash in
          if ntype dash \<noteq> ''text'' \<or> \<not> validateListItemPrefix ext descriptionText dashText then
            (if reInvalidWhitespace dashText then (Some False, [(InvalidWhitespace, Some dash)])
             else if reInvalidDash dashText then (Some False, [(InvalidDash, Some dash)])
             else (Some False, [(MissingDash, Some dash)]))
          else
            let i = lastNonBadgeLoop description (int (length description) - 1) in
            if i < 0 then (Some False, [(OnlyBadges, Some (description ! 0))])
            else
              let lastNonBadgeIndex = nat i;
                  suffixWithoutBadge = description ! lastNonBadgeIndex;
                  suffixWithoutBadgeText = toString suffixWithoutBadge
              in
              if ntype suffixWithoutBadge \<notin> set listItemDescriptionSuffixNodeAllowList then
                (Some False, [(ProperPunctuation, Some suffixWithoutBadge)])
              else if ntype suffixWithoutBadge = ''text''
                      \<and> \<not> validateListItemSuffix ext (lastSuffixText description lastNonBadgeIndex)
                            suffixWithoutBadgeText
              then (Some False, [(ProperPunctuation, Some suffixWithoutBadge)])
              else if lastNonBadgeIndex = 0 then
                (let (ok, ms) = validateListItemPrefixCasing ext dash
                 in if \<not> ok then (Some False, ms) else (Some True, ms))
              else
                (case find (\<lambda>node. ntype node \<notin> set listItemDescriptionNodeAllowList)
                        (beforeBadges description lastNonBadgeIndex) of
                   Some node \<Rightarrow> (Some False, [(InvalidMarkdown, Some node)])
                 | None \<Rightarrow>
                     if (case nodeLength dash of Some n \<Rightarrow> n > 3 | None \<Rightarrow> False) then
                       (let (ok, ms) = validateListItemPrefixCasing ext dash
                        in if \<not> ok then (Some False, ms) else (Some True, ms))
                     else (Some True, [])))"

section \<open>The entries of a list\<close>

text \<open>
  The loop that discards leading nodes until \<^verbatim>\<open>link\<close> is link-like or one node of
  the description is left.
\<close>

definition skipping :: "node \<Rightarrow> node list \<Rightarrow> bool" where
  "skipping link description =
     (ntype link \<noteq> ''linkReference'' \<and> ntype link \<noteq> ''link'' \<and> length description > 1)"

function skipFiller :: "node \<Rightarrow> node list \<Rightarrow> node \<times> node list" where
  "skipFiller link description =
     (if skipping link description then skipFiller (description ! 0) (drop 1 description)
      else (link, description))"
  by pat_completeness auto
termination
  by (relation "measure (\<lambda>(link, description). length description)") (auto simp: skipping_def)

declare skipFiller.simps [simp del]

text \<open>The body of the loop of \<^verbatim>\<open>validateList\<close>, for one list item.\<close>

definition validateListItem :: "env \<Rightarrow> node \<Rightarrow> diagnostic list" where
  "validateListItem ext listItem =
     (case nchildren listItem of
        [] \<Rightarrow> [(InvalidListItem, None)]
      | paragraph # others \<Rightarrow>
          if ntype paragraph \<noteq> ''paragraph'' \<or> length (nchildren paragraph) = 0 then
            [(InvalidListItem, Some paragraph)]
          else if ntype (nchildren paragraph ! 0) = ''text'' then []
          else
            let (link, description) =
                  skipFiller (nchildren paragraph ! 0) (drop 1 (nchildren paragraph));
                (linkOk, ms1) = validateListItemLink ext link
            in
            if \<not> linkOk then ms1
            else
              let (childrenOk, ms2) = validateListItemLinkChildren link in
              if \<not> childrenOk then ms1 @ ms2
              else ms1 @ ms2 @ snd (validateListItemDescription ext description))"

text \<open>\<^verbatim>\<open>validateList(list, file)\<close>: the messages of \<open>file\<close> after the loop.\<close>

definition validateList :: "env \<Rightarrow> node \<Rightarrow> diagnostic list \<Rightarrow> diagnostic list" where
  "validateList ext list file =
     foldl (\<lambda>file listItem. file @ validateListItem ext listItem) file (nchildren list)"

section \<open>The rule\<close>

text \<open>
  \<^verbatim>\<open>visit(ast, "list", ...)\<close> of unist-util-visit: every list node of the tree, the
  tree itself included, in preorder.
\<close>

fun findAllLists :: "node \<Rightarrow> node list" where
  "findAllLists (Node t v a u d cs) =
     (if t = ''list'' then [Node t v a u d cs] else []) @ concat (map findAllLists cs)"

definition extractSublists :: "node list \<Rightarrow> node list" where
  "extractSublists listNodes =
     foldl (\<lambda>allLists list. allLists @ findAllLists list) [] listNodes"

text \<open>
  \<^verbatim>\<open>replaceAll(/<!--.*?-->/g, "")\<close>. \<open>commentEnd\<close> reads \<^verbatim>\<open>.*?-->\<close> after an
  opening \<^verbatim>\<open><!--\<close>: the nearest \<^verbatim>\<open>-->\<close> that no line terminator comes before,
  and gives what follows it.
\<close>

fun commentEnd :: "jsstring \<Rightarrow> jsstring option" where
  "commentEnd [] = None"
| "commentEnd (c # cs) =
     (if startsWith (c # cs) (js ''-->'') then Some (drop 3 (c # cs))
      else if isLineTerminator c then None
      else commentEnd cs)"

function stripComments :: "jsstring \<Rightarrow> jsstring" where
  "stripComments [] = []"
| "stripComments (c # cs) =
     (if startsWith (c # cs) (js ''<!--'') then
        (case commentEnd (drop 4 (c # cs)) of
           Some rest \<Rightarrow> stripComments rest
         | None \<Rightarrow> c # stripComments cs)
      else c # stripComments cs)"
  by pat_completeness auto
termination
proof (relation "measure length")
  have shorter: "commentEnd t = Some r \<Longrightarrow> length r \<le> length t" for t r
    by (induction t) (auto split: if_splits)
  fix c cs rest
  assume "commentEnd (drop 4 (c # cs)) = Some rest"
  from shorter[OF this] show "(rest, c # cs) \<in> measure length" by simp
qed auto

declare stripComments.simps [simp del]

text \<open>The test of \<^verbatim>\<open>find\<close> in the rule: the heading of the table of contents.\<close>

definition isContents :: "node \<Rightarrow> bool" where
  "isContents node =
     (ntype node = ''heading'' \<and> ndepth node = 2
      \<and> trim (stripComments (toString node)) = js ''Contents'')"

text \<open>
  \<^verbatim>\<open>find(ast, test)\<close> of unist-util-find: the first node in preorder, the tree itself
  included, that passes the test. Objects have an identity that values lack, so the node
  found is given by its path, the child indices from the tree down to it.
\<close>

fun findNode :: "(node \<Rightarrow> bool) \<Rightarrow> node \<Rightarrow> nat list option" where
  "findNode P (Node t v a u d cs) =
     (if P (Node t v a u d cs) then Some []
      else
        (case find (\<lambda>(i, r). r \<noteq> None) (enumerate 0 (map (findNode P) cs)) of
           Some (i, Some path) \<Rightarrow> Some (i # path)
         | _ \<Rightarrow> None))"

text \<open>
  \<^verbatim>\<open>findAllAfter(parent, node, { type })\<close> of unist-util-find-all-after looks
  \<^verbatim>\<open>node\<close> up among the children of \<^verbatim>\<open>parent\<close> (\<^verbatim>\<open>indexOf\<close>), throws
  "Expected child node or index" when it is not one of them, and returns the children
  after it that have the type. \<open>childIndex\<close> is the lookup, on the path of the node;
  \<open>findAllAfter\<close> is the rest, each child with its index.
\<close>

datatype error = ExpectedChildNode

definition childIndex :: "nat list \<Rightarrow> error + nat" where
  "childIndex path = (case path of [i] \<Rightarrow> Inr i | _ \<Rightarrow> Inl ExpectedChildNode)"

definition findAllAfter :: "node \<Rightarrow> nat \<Rightarrow> string \<Rightarrow> (nat \<times> node) list" where
  "findAllAfter parent index t =
     filter (\<lambda>(k, n). index < k \<and> ntype n = t) (enumerate 0 (nchildren parent))"

definition validateLists :: "env \<Rightarrow> node list \<Rightarrow> diagnostic list \<Rightarrow> diagnostic list" where
  "validateLists ext listNodes file =
     foldl (\<lambda>file list. validateList ext list file) file listNodes"

text \<open>
  \<^verbatim>\<open>listItemRule\<close>: the messages of the file after the rule has run on a tree, or the
  error thrown.
\<close>

definition listItemRule :: "env \<Rightarrow> node \<Rightarrow> error + diagnostic list" where
  "listItemRule ext ast =
     (let listNodes = findAllLists ast in
      case findNode isContents ast of
        None \<Rightarrow> Inr (validateLists ext listNodes [])
      | Some toc \<Rightarrow>
          (case childIndex toc of
             Inl e \<Rightarrow> Inl e
           | Inr tocIndex \<Rightarrow>
               (case findAllAfter ast tocIndex ''heading'' of
                  [] \<Rightarrow> Inr []
                | (postIndex, postContentsHeading) # others \<Rightarrow>
                    Inr (validateLists ext
                           (extractSublists (map snd (findAllAfter ast postIndex ''list'')))
                           []))))"

section \<open>Collaborators for the examples\<close>

text \<open>
  A small stand-in for the packages, enough to run the examples below: a URL is a text
  that starts with \<^verbatim>\<open>https://\<close>, the only emoji is the check mark U+2705 (one code
  unit), a word of small letters is "lower", a capital letter followed by small letters
  is "capital", and the identifier allow list is empty.
\<close>

definition isLower :: "nat \<Rightarrow> bool" where
  "isLower c = (97 \<le> c \<and> c \<le> 122)"

definition isUpper :: "nat \<Rightarrow> bool" where
  "isUpper c = (65 \<le> c \<and> c \<le> 90)"

definition checkMark :: nat where
  "checkMark = 0x2705"

definition exampleEmojiMatches :: "jsstring \<Rightarrow> (nat \<times> nat) list" where
  "exampleEmojiMatches s =
     map (\<lambda>(i, c). (i, 1)) (filter (\<lambda>(i, c). c = checkMark) (enumerate 0 s))"

definition exampleCaseOf :: "jsstring \<Rightarrow> string option" where
  "exampleCaseOf w =
     (case w of
        [] \<Rightarrow> None
      | c # cs \<Rightarrow>
          if list_all isLower (c # cs) then Some ''lower''
          else if isUpper c \<and> cs \<noteq> [] \<and> list_all isLower cs then Some ''capital''
          else None)"

definition exampleEnv :: env where
  "exampleEnv =
     \<lparr> isUrl = (\<lambda>u. startsWith u (js ''https://'')),
       caseOf = exampleCaseOf,
       emojiMatches = exampleEmojiMatches,
       identifierAllowList = [] \<rparr>"

text \<open>The entries of the examples.\<close>

definition fooLink :: node where
  "fooLink = link_node (js ''https://example.com'') [text_node (js ''Foo'')]"

definition entry :: "node list \<Rightarrow> node" where
  "entry inline = parent_node ''listItem'' [parent_node ''paragraph'' inline]"

definition imageNode :: node where
  "imageNode = Node ''image'' None (Some (js ''logo'')) (js ''https://example.com/l.png'') 0 []"

text \<open>An image, then the link and its description.\<close>

definition fillerDescription :: "node list" where
  "fillerDescription = [fooLink, text_node (js '' - Done.'')]"

text \<open>A reference whose text is strong, and one whose text is plain.\<close>

definition strongNode :: node where
  "strongNode = parent_node ''strong'' [text_node (js ''Foo'')]"

definition strongReference :: node where
  "strongReference = linkReference_node [strongNode]"

definition plainReference :: node where
  "plainReference = linkReference_node [text_node (js ''Foo'')]"

text \<open>An entry that opens with text, followed by something that is no link.\<close>

definition textLedEntry :: node where
  "textLedEntry = entry [text_node (js ''see also''), imageNode]"

text \<open>An entry with an en dash for the separator, and a list of it and a good entry.\<close>

definition enDashText :: node where
  "enDashText = text_node (js '' '' @ [enDash] @ js '' A tool.'')"

definition twoEntries :: node where
  "twoEntries =
     parent_node ''list''
       [entry [fooLink, enDashText], entry [fooLink, text_node (js '' - Done.'')]]"

text \<open>Scenario E of the specification: a link, then " - Done" and a check mark.\<close>

definition doneText :: jsstring where
  "doneText = js '' - Done '' @ [checkMark]"

definition scenarioE :: node where
  "scenarioE = entry [fooLink, text_node doneText]"

text \<open>
  Texts for the rule on quotes, the quote being the straight one (0x22): a quotation
  then a full stop; a quotation that ends in a full stop, then a full stop; and a
  quotation that ends in two full stops.
\<close>

definition quoteThenStop :: jsstring where
  "quoteThenStop = js '' - See '' @ [0x22] @ js ''it'' @ [0x22] @ js ''.''"

definition stopQuoteStop :: jsstring where
  "stopQuoteStop = js '' - See '' @ [0x22] @ js ''it.'' @ [0x22] @ js ''.''"

definition twoStopsQuote :: jsstring where
  "twoStopsQuote = js '' - See '' @ [0x22] @ js ''it..'' @ [0x22]"

text \<open>
  A link whose URL is none, and texts for the rule on descriptions without punctuation:
  " - Done" with no emoji, and "Done" and a check mark with no dash.
\<close>

definition badUrlLink :: node where
  "badUrlLink = link_node (js ''nope'') [text_node (js ''Foo'')]"

definition doneNoEmoji :: node where
  "doneNoEmoji = text_node (js '' - Done'')"

definition emojiLed :: node where
  "emojiLed = text_node (js ''Done '' @ [checkMark])"

text \<open>
  A description of mixed markup: a dash text that opens with a small letter, a link and
  a full stop; and the same opening as plain text.
\<close>

definition smallDash :: node where
  "smallDash = text_node (js '' - a tool like '')"

definition mixedDescription :: "node list" where
  "mixedDescription = [smallDash, fooLink, text_node (js ''.'')]"

text \<open>A badge, a blank text, and a description with and without a space at its end.\<close>

definition betaBadge :: node where
  "betaBadge = inlineCode_node (js ''Beta'')"

definition blankText :: node where
  "blankText = text_node (js '' '')"

definition betaStop :: node where
  "betaStop = text_node (js '' - Beta.'')"

definition betaStopSpace :: node where
  "betaStopSpace = text_node (js '' - Beta. '')"

text \<open>
  Documents: a table of contents followed by a list with a bad entry and no other
  heading, at the top level and inside a block quote. \<open>allNodes\<close> lists the nodes of a
  tree in document order.
\<close>

fun allNodes :: "node \<Rightarrow> node list" where
  "allNodes (Node t v a u d cs) = Node t v a u d cs # concat (map allNodes cs)"

definition contentsHeading :: node where
  "contentsHeading = heading_node 2 [text_node (js ''Contents'')]"

definition badList :: node where
  "badList = parent_node ''list'' [entry [fooLink, enDashText]]"

definition tocDocument :: node where
  "tocDocument = parent_node ''root'' [contentsHeading, badList]"

definition nestedTocDocument :: node where
  "nestedTocDocument =
     parent_node ''root'' [parent_node ''blockquote'' [contentsHeading], badList]"

section \<open>Unfolding the model on concrete input\<close>

lemmas regex_defs =
  test_whole_def test_start_def test_end_def test_any_def RCat_def RChr_def RPlus_def
  ROpt_def RAny_def RDot_def
  reInvalidWhitespace_def reInvalidDash_def reBlank_def reParenthetical_def
  reParentheticalOnly_def reFullyBackticked_def reMultipleBackticks_def
  reQuoteThenPunctuation_def rePunctuationQuotePunctuation_def rePunctuationThenQuote_def
  reHasPunctuation_def reClosingParenthesis_def reHasDigit_def reOpeningQuote_def

lemmas char_defs =
  isWhiteSpace_def isLineTerminator_def isPunctuation_def isQuote_def isDigit_def
  isWordChar_def isSeparator_def backtick_def enDash_def emDash_def openingCurlyQuote_def
  checkMark_def js_def isLower_def isUpper_def

lemmas node_defs =
  text_node_def inlineCode_node_def link_node_def linkReference_node_def parent_node_def
  heading_node_def rootOf_def fooLink_def entry_def imageNode_def strongNode_def
  doneText_def scenarioE_def quoteThenStop_def stopQuoteStop_def twoStopsQuote_def
  badUrlLink_def doneNoEmoji_def emojiLed_def smallDash_def mixedDescription_def
  betaBadge_def blankText_def betaStop_def betaStopSpace_def

lemmas string_defs =
  textEndsWithEmoji_def removeEmoji_def lastTokenEndsWithEmoji_def tokenizeWords_def
  startsWith_def trim_def trimEnd_def valueOf_def enumerate_eq_zip

lemmas example_defs = exampleEnv_def exampleEmojiMatches_def exampleCaseOf_def

lemmas allow_defs =
  listItemPrefixCaseAllowList_def listItemLinkNodeAllowList_def
  listItemDescriptionNodeAllowList_def listItemDescriptionSuffixNodeAllowList_def

lemmas validator_defs =
  validateListItem_def validateListItemLink_def validateListItemLinkChildren_def
  validateListItemDescription_def validateListItemSpecialCases_def validateListItemPrefix_def
  validateListItemSuffix_def validateListItemPrefixCasing_def
  lastNonBadgeLoop.simps isBadge_def lastSuffixText_def hasBadges_def beforeBadges_def
  nodeLength_def skipFiller.simps skipping_def

lemmas rule_defs =
  listItemRule_def isContents_def stripComments.simps childIndex_def
  findAllAfter_def validateLists_def validateList_def extractSublists_def
  contentsHeading_def badList_def tocDocument_def nestedTocDocument_def enDashText_def

lemmas unfold_all =
  validator_defs allow_defs example_defs string_defs node_defs char_defs regex_defs

section \<open>Regular expressions: matching is membership in the language\<close>

lemma star_Cons_iff:
  "c # w \<in> star A \<longleftrightarrow> (\<exists>u v. w = u @ v \<and> c # u \<in> A \<and> v \<in> star A)"
proof
  assume cw: "c # w \<in> star A"
  have gen: "x \<in> star A \<Longrightarrow> x = c # w \<Longrightarrow> \<exists>u v. w = u @ v \<and> c # u \<in> A \<and> v \<in> star A" for x
  proof (induction x rule: star.induct)
    case star_nil
    then show ?case by simp
  next
    case (star_step u v)
    show ?case
    proof (cases u)
      case Nil
      with star_step show ?thesis by simp
    next
      case (Cons a u')
      with star_step.prems have "a = c" "w = u' @ v" by simp_all
      with star_step.hyps(1,2) Cons show ?thesis by blast
    qed
  qed
  from gen[OF cw refl] show "\<exists>u v. w = u @ v \<and> c # u \<in> A \<and> v \<in> star A" .
next
  assume "\<exists>u v. w = u @ v \<and> c # u \<in> A \<and> v \<in> star A"
  then obtain u v where "w = u @ v" "c # u \<in> A" "v \<in> star A" by blast
  then show "c # w \<in> star A" using star_step[of "c # u" A v] by simp
qed

lemma nullable_iff: "nullable r \<longleftrightarrow> [] \<in> lang r"
  by (induction r) (auto intro: star_nil)

lemma lang_deriv: "lang (deriv c r) = {w. c # w \<in> lang r}"
proof (induction r)
  case (RSeq r1 r2)
  show ?case
    by (auto simp: RSeq nullable_iff Cons_eq_append_conv)
next
  case (RStar r)
  then show ?case by (auto simp: star_Cons_iff)
qed auto

lemma matches_iff: "matches r s \<longleftrightarrow> s \<in> lang r"
  by (induction s arbitrary: r) (simp_all add: nullable_iff lang_deriv)

lemma star_class: "star {[c] | c. P c} = {s. \<forall>c \<in> set s. P c}"
proof (rule set_eqI, rule iffI)
  fix s assume "s \<in> star {[c] | c. P c}"
  then show "s \<in> {s. \<forall>c \<in> set s. P c}" by (induction rule: star.induct) auto
next
  fix s assume "s \<in> {s. \<forall>c \<in> set s. P c}"
  then show "s \<in> star {[c] | c. P c}"
  proof (induction s)
    case Nil show ?case by (rule star_nil)
  next
    case (Cons a s)
    then have "[a] \<in> {[c] | c. P c}" "s \<in> star {[c] | c. P c}" by auto
    then have "[a] @ s \<in> star {[c] | c. P c}" by (rule star_step)
    then show ?case by simp
  qed
qed

lemma lang_RAny: "lang RAny = UNIV"
  using star_class[of "\<lambda>c. True"] by (simp add: RAny_def)

lemma test_whole_iff: "test_whole r s \<longleftrightarrow> s \<in> lang r"
  by (simp add: test_whole_def matches_iff)

lemma test_end_iff: "test_end r s \<longleftrightarrow> (\<exists>u v. s = u @ v \<and> v \<in> lang r)"
  by (auto simp: test_end_def matches_iff lang_RAny)

lemma test_start_iff: "test_start r s \<longleftrightarrow> (\<exists>u v. s = u @ v \<and> u \<in> lang r)"
  by (auto simp: test_start_def matches_iff lang_RAny)

lemma test_any_iff: "test_any r s \<longleftrightarrow> (\<exists>u v w. s = u @ v @ w \<and> v \<in> lang r)"
  by (auto simp: test_any_def matches_iff lang_RAny)

lemma reBlank_iff: "reBlank s \<longleftrightarrow> (\<forall>c \<in> set s. isWhiteSpace c)"
  by (simp add: reBlank_def test_whole_iff star_class)

lemma lang_RCat_Nil: "lang (RCat []) = {[]}"
  by (simp add: RCat_def)

lemma lang_RCat_Cons: "lang (RCat (r # rs)) = {u @ v | u v. u \<in> lang r \<and> v \<in> lang (RCat rs)}"
  by (simp add: RCat_def)

lemma lang_star_class: "lang (RStar (RClass P)) = {s. \<forall>c \<in> set s. P c}"
  by (simp add: star_class)

lemma lang_plus_class: "lang (RPlus (RClass P)) = {s. s \<noteq> [] \<and> (\<forall>c \<in> set s. P c)}"
proof (rule set_eqI, rule iffI)
  fix s assume "s \<in> lang (RPlus (RClass P))"
  then show "s \<in> {s. s \<noteq> [] \<and> (\<forall>c \<in> set s. P c)}"
    by (auto simp: RPlus_def star_class)
next
  fix s assume "s \<in> {s. s \<noteq> [] \<and> (\<forall>c \<in> set s. P c)}"
  then obtain c v where s: "s = [c] @ v" "P c" "\<forall>x \<in> set v. P x" by (cases s) auto
  then have "[c] \<in> lang (RClass P)" "v \<in> lang (RStar (RClass P))" by (simp_all add: star_class)
  with s(1) show "s \<in> lang (RPlus (RClass P))" unfolding RPlus_def lang.simps by blast
qed

lemma lang_class: "lang (RClass P) = {[c] | c. P c}"
  by simp

lemma lang_opt: "lang (ROpt r) = {[]} \<union> lang r"
  by (simp add: ROpt_def)

lemma reHasPunctuation_iff: "reHasPunctuation s \<longleftrightarrow> (\<exists>c \<in> set s. isPunctuation c)"
proof
  assume "reHasPunctuation s"
  then obtain u v w where "s = u @ v @ w" "v \<in> lang (RClass isPunctuation)"
    unfolding reHasPunctuation_def test_any_iff by blast
  then show "\<exists>c \<in> set s. isPunctuation c" by auto
next
  assume "\<exists>c \<in> set s. isPunctuation c"
  then obtain c where c: "c \<in> set s" "isPunctuation c" by blast
  then obtain ys zs where "s = ys @ c # zs" by (meson split_list)
  then have "s = ys @ [c] @ zs" "[c] \<in> lang (RClass isPunctuation)" using c by simp_all
  then show "reHasPunctuation s" unfolding reHasPunctuation_def test_any_iff by blast
qed

lemma reQuoteThenPunctuation_iff:
  "reQuoteThenPunctuation s \<longleftrightarrow>
     (\<exists>u q p. s = u @ q # p \<and> isQuote q \<and> p \<noteq> [] \<and> (\<forall>c \<in> set p. isPunctuation c))"
proof
  assume "reQuoteThenPunctuation s"
  then obtain a v where s: "s = a @ v"
    and v: "v \<in> lang (RCat [RStar RDot, RClass isQuote, RPlus (RClass isPunctuation)])"
    unfolding reQuoteThenPunctuation_def test_end_iff by blast
  from v obtain d q p where "v = d @ [q] @ p" "isQuote q" "p \<noteq> []" "\<forall>c \<in> set p. isPunctuation c"
    unfolding lang_RCat_Cons lang_RCat_Nil lang_plus_class lang_class by auto
  with s have "s = (a @ d) @ q # p" by simp
  with \<open>isQuote q\<close> \<open>p \<noteq> []\<close> \<open>\<forall>c \<in> set p. isPunctuation c\<close>
  show "\<exists>u q p. s = u @ q # p \<and> isQuote q \<and> p \<noteq> [] \<and> (\<forall>c \<in> set p. isPunctuation c)" by blast
next
  assume "\<exists>u q p. s = u @ q # p \<and> isQuote q \<and> p \<noteq> [] \<and> (\<forall>c \<in> set p. isPunctuation c)"
  then obtain u q p where s: "s = u @ q # p" and q: "isQuote q" and p: "p \<noteq> []" "\<forall>c \<in> set p. isPunctuation c"
    by blast
  have "[] \<in> lang (RStar RDot)" by (simp add: star_nil)
  moreover have "[q] \<in> lang (RClass isQuote)" using q by simp
  moreover have "p \<in> lang (RPlus (RClass isPunctuation))" using p by (simp add: lang_plus_class)
  ultimately have "[] @ [q] @ p @ [] \<in> lang (RCat [RStar RDot, RClass isQuote, RPlus (RClass isPunctuation)])"
    unfolding lang_RCat_Cons lang_RCat_Nil by blast
  then have "q # p \<in> lang (RCat [RStar RDot, RClass isQuote, RPlus (RClass isPunctuation)])" by simp
  with s show "reQuoteThenPunctuation s"
    unfolding reQuoteThenPunctuation_def test_end_iff by blast
qed

lemma rePunctuationQuotePunctuation_iff:
  "rePunctuationQuotePunctuation s \<longleftrightarrow>
     (\<exists>u x q p. s = u @ x # q # p \<and> isPunctuation x \<and> isQuote q \<and> p \<noteq> []
        \<and> (\<forall>c \<in> set p. isPunctuation c))"
proof
  assume "rePunctuationQuotePunctuation s"
  then obtain a v where s: "s = a @ v"
    and v: "v \<in> lang (RCat [RStar RDot, RClass isPunctuation, RClass isQuote,
                             RPlus (RClass isPunctuation)])"
    unfolding rePunctuationQuotePunctuation_def test_end_iff by blast
  from v obtain d x q p where "v = d @ [x] @ [q] @ p" "isPunctuation x" "isQuote q" "p \<noteq> []"
      "\<forall>c \<in> set p. isPunctuation c"
    unfolding lang_RCat_Cons lang_RCat_Nil lang_plus_class lang_class by auto
  with s have "s = (a @ d) @ x # q # p" by simp
  with \<open>isPunctuation x\<close> \<open>isQuote q\<close> \<open>p \<noteq> []\<close> \<open>\<forall>c \<in> set p. isPunctuation c\<close>
  show "\<exists>u x q p. s = u @ x # q # p \<and> isPunctuation x \<and> isQuote q \<and> p \<noteq> []
        \<and> (\<forall>c \<in> set p. isPunctuation c)" by blast
next
  assume "\<exists>u x q p. s = u @ x # q # p \<and> isPunctuation x \<and> isQuote q \<and> p \<noteq> []
        \<and> (\<forall>c \<in> set p. isPunctuation c)"
  then obtain u x q p where s: "s = u @ x # q # p" and x: "isPunctuation x" and q: "isQuote q"
    and p: "p \<noteq> []" "\<forall>c \<in> set p. isPunctuation c"
    by blast
  have "[] \<in> lang (RStar RDot)" by (simp add: star_nil)
  moreover have "[x] \<in> lang (RClass isPunctuation)" using x by simp
  moreover have "[q] \<in> lang (RClass isQuote)" using q by simp
  moreover have "p \<in> lang (RPlus (RClass isPunctuation))" using p by (simp add: lang_plus_class)
  ultimately have "[] @ [x] @ [q] @ p @ [] \<in> lang (RCat [RStar RDot, RClass isPunctuation, RClass isQuote,
                             RPlus (RClass isPunctuation)])"
    unfolding lang_RCat_Cons lang_RCat_Nil by blast
  then have "x # q # p \<in> lang (RCat [RStar RDot, RClass isPunctuation, RClass isQuote,
                             RPlus (RClass isPunctuation)])" by simp
  with s show "rePunctuationQuotePunctuation s"
    unfolding rePunctuationQuotePunctuation_def test_end_iff by blast
qed

lemma rePunctuationThenQuote_iff:
  "rePunctuationThenQuote s \<longleftrightarrow>
     (\<exists>u x. isPunctuation x \<and> (s = u @ [x] \<or> (\<exists>q. isQuote q \<and> s = u @ [x, q])))"
proof
  assume "rePunctuationThenQuote s"
  then obtain a v where s: "s = a @ v"
    and v: "v \<in> lang (RCat [RStar RDot, RClass isPunctuation, ROpt (RClass isQuote)])"
    unfolding rePunctuationThenQuote_def test_end_iff by blast
  from v obtain d x t where t: "v = d @ [x] @ t" "isPunctuation x" "t = [] \<or> (\<exists>q. isQuote q \<and> t = [q])"
    unfolding lang_RCat_Cons lang_RCat_Nil lang_opt lang_class by auto
  from t(3) show "\<exists>u x. isPunctuation x \<and> (s = u @ [x] \<or> (\<exists>q. isQuote q \<and> s = u @ [x, q]))"
  proof
    assume "t = []"
    with s t have "s = (a @ d) @ [x]" by simp
    with t(2) show ?thesis by blast
  next
    assume "\<exists>q. isQuote q \<and> t = [q]"
    then obtain q where "isQuote q" "t = [q]" by blast
    with s t have "s = (a @ d) @ [x, q]" by simp
    with t(2) \<open>isQuote q\<close> show ?thesis by blast
  qed
next
  assume "\<exists>u x. isPunctuation x \<and> (s = u @ [x] \<or> (\<exists>q. isQuote q \<and> s = u @ [x, q]))"
  then obtain u x where x: "isPunctuation x" and alt: "s = u @ [x] \<or> (\<exists>q. isQuote q \<and> s = u @ [x, q])"
    by blast
  have d: "[] \<in> lang (RStar RDot)" by (simp add: star_nil)
  have xl: "[x] \<in> lang (RClass isPunctuation)" using x by simp
  from alt obtain t where t: "s = u @ [x] @ t" "t \<in> lang (ROpt (RClass isQuote))"
    unfolding lang_opt by auto
  from d xl t(2) have "[] @ [x] @ t @ [] \<in> lang (RCat [RStar RDot, RClass isPunctuation, ROpt (RClass isQuote)])"
    unfolding lang_RCat_Cons lang_RCat_Nil by blast
  then have "[x] @ t \<in> lang (RCat [RStar RDot, RClass isPunctuation, ROpt (RClass isQuote)])" by simp
  with t(1) show "rePunctuationThenQuote s"
    unfolding rePunctuationThenQuote_def test_end_iff by blast
qed

section \<open>One message per entry\<close>

lemma casing_messages:
  "validateListItemPrefixCasing ext p = (ok, ms) \<Longrightarrow> (\<not> ok \<and> length ms = 1) \<or> (ok \<and> ms = [])"
  by (auto simp: validateListItemPrefixCasing_def Let_def split: list.splits if_splits)

lemma link_messages:
  "validateListItemLink ext l = (ok, ms) \<Longrightarrow> (\<not> ok \<and> length ms = 1) \<or> (ok \<and> ms = [])"
  by (auto simp: validateListItemLink_def split: if_splits)

lemma children_messages:
  "validateListItemLinkChildren l = (ok, ms) \<Longrightarrow> (\<not> ok \<and> length ms = 1) \<or> (ok \<and> ms = [])"
  by (auto simp: validateListItemLinkChildren_def split: option.splits)

lemma description_messages:
  "validateListItemDescription ext d = (r, ms) \<Longrightarrow>
     (r = Some False \<and> length ms = 1) \<or> (r \<noteq> Some False \<and> ms = [])"
  unfolding validateListItemDescription_def Let_def
  by (auto split: if_splits option.splits prod.splits dest!: casing_messages)

lemma entry_messages: "length (validateListItem ext listItem) \<le> 1"
  unfolding validateListItem_def Let_def
  by (auto split: list.splits prod.splits
        dest!: link_messages children_messages description_messages simp: snd_def)

lemma foldl_append_concat: "foldl (\<lambda>acc x. acc @ f x) acc xs = acc @ concat (map f xs)"
  by (induction xs arbitrary: acc) simp_all

lemma validateList_concat:
  "validateList ext list acc = acc @ concat (map (validateListItem ext) (nchildren list))"
  by (simp add: validateList_def foldl_append_concat)

lemma validateLists_concat:
  "validateLists ext ls acc =
     acc @ concat (map (\<lambda>l. concat (map (validateListItem ext) (nchildren l))) ls)"
  unfolding validateLists_def
  by (induction ls arbitrary: acc) (simp_all add: validateList_concat)

lemma entry_decision:
  assumes "nchildren listItem = paragraph # others" "ntype paragraph = ''paragraph''"
    "nchildren paragraph \<noteq> []" "ntype (nchildren paragraph ! 0) \<noteq> ''text''"
    "skipFiller (nchildren paragraph ! 0) (drop 1 (nchildren paragraph)) = (l, d)"
  shows "(\<not> fst (validateListItemLink ext l) \<longrightarrow>
            validateListItem ext listItem = snd (validateListItemLink ext l)
            \<and> length (validateListItem ext listItem) = 1)
       \<and> (fst (validateListItemLink ext l) \<and> \<not> fst (validateListItemLinkChildren l) \<longrightarrow>
            validateListItem ext listItem = snd (validateListItemLinkChildren l)
            \<and> length (validateListItem ext listItem) = 1)
       \<and> (fst (validateListItemLink ext l) \<and> fst (validateListItemLinkChildren l) \<longrightarrow>
            validateListItem ext listItem = snd (validateListItemDescription ext d)
            \<and> (fst (validateListItemDescription ext d) = Some False
                 \<longrightarrow> length (validateListItem ext listItem) = 1)
            \<and> (fst (validateListItemDescription ext d) \<noteq> Some False
                 \<longrightarrow> validateListItem ext listItem = []))"
proof -
  obtain a ma where a: "validateListItemLink ext l = (a, ma)" by (cases "validateListItemLink ext l")
  obtain b mb where b: "validateListItemLinkChildren l = (b, mb)"
    by (cases "validateListItemLinkChildren l")
  obtain c mc where c: "validateListItemDescription ext d = (c, mc)"
    by (cases "validateListItemDescription ext d")
  have v: "validateListItem ext listItem
             = (if \<not> a then ma else if \<not> b then ma @ mb else ma @ mb @ mc)"
    using assms a b c by (simp add: validateListItem_def)
  from link_messages[OF a] children_messages[OF b] description_messages[OF c]
  show ?thesis using a b c v by auto
qed

lemma description_decision:
  assumes "description \<noteq> []"
    "\<not> validateListItemSpecialCases ext description (toString (rootOf description))"
  shows
   "(ntype (description ! 0) \<noteq> ''text''
       \<or> \<not> validateListItemPrefix ext (toString (rootOf description)) (toString (description ! 0))
     \<longrightarrow> validateListItemDescription ext description
           = (Some False,
              [(if reInvalidWhitespace (toString (description ! 0)) then InvalidWhitespace
                else if reInvalidDash (toString (description ! 0)) then InvalidDash
                else MissingDash, Some (description ! 0))]))
    \<and> (ntype (description ! 0) = ''text''
         \<and> validateListItemPrefix ext (toString (rootOf description)) (toString (description ! 0))
       \<longrightarrow>
         (\<forall>k. lastNonBadgeLoop description (int (length description) - 1) = int k \<longrightarrow>
            (ntype (description ! k) \<notin> set listItemDescriptionSuffixNodeAllowList
               \<or> ntype (description ! k) = ''text''
                  \<and> \<not> validateListItemSuffix ext (lastSuffixText description k)
                        (toString (description ! k))
             \<longrightarrow> validateListItemDescription ext description
                   = (Some False, [(ProperPunctuation, Some (description ! k))]))
            \<and> (ntype (description ! k) \<in> set listItemDescriptionSuffixNodeAllowList
                 \<and> (ntype (description ! k) = ''text''
                      \<longrightarrow> validateListItemSuffix ext (lastSuffixText description k)
                            (toString (description ! k)))
               \<longrightarrow>
                 (k = 0 \<longrightarrow>
                    validateListItemDescription ext description
                      = (if fst (validateListItemPrefixCasing ext (description ! 0))
                         then (Some True, [])
                         else (Some False, snd (validateListItemPrefixCasing ext (description ! 0)))))
                 \<and> (0 < k \<longrightarrow>
                    (\<forall>n. find (\<lambda>node. ntype node \<notin> set listItemDescriptionNodeAllowList)
                           (beforeBadges description k) = Some n
                         \<longrightarrow> validateListItemDescription ext description
                               = (Some False, [(InvalidMarkdown, Some n)]))))))"
proof -
  let ?dashOk = "ntype (description ! 0) = ''text''
         \<and> validateListItemPrefix ext (toString (rootOf description)) (toString (description ! 0))"
  have c: "(let (ok, ms) = validateListItemPrefixCasing ext (description ! 0)
            in if \<not> ok then (Some False, ms) else (Some True, ms))
           = (if fst (validateListItemPrefixCasing ext (description ! 0))
              then (Some True, [])
              else (Some False, snd (validateListItemPrefixCasing ext (description ! 0))))"
    using casing_messages[of ext "description ! 0"]
    by (cases "validateListItemPrefixCasing ext (description ! 0)") auto
  have dash: "\<not> ?dashOk \<Longrightarrow> validateListItemDescription ext description
           = (Some False,
              [(if reInvalidWhitespace (toString (description ! 0)) then InvalidWhitespace
                else if reInvalidDash (toString (description ! 0)) then InvalidDash
                else MissingDash, Some (description ! 0))])"
    using assms by (simp add: validateListItemDescription_def Let_def)
  have rest: "validateListItemDescription ext description =
      (if ntype (description ! k) \<notin> set listItemDescriptionSuffixNodeAllowList
          \<or> ntype (description ! k) = ''text''
             \<and> \<not> validateListItemSuffix ext (lastSuffixText description k)
                   (toString (description ! k))
       then (Some False, [(ProperPunctuation, Some (description ! k))])
       else if k = 0 then
         (if fst (validateListItemPrefixCasing ext (description ! 0))
          then (Some True, [])
          else (Some False, snd (validateListItemPrefixCasing ext (description ! 0))))
       else (case find (\<lambda>node. ntype node \<notin> set listItemDescriptionNodeAllowList)
                   (beforeBadges description k) of
               Some node \<Rightarrow> (Some False, [(InvalidMarkdown, Some node)])
             | None \<Rightarrow> (Some True, [])))"
    if "?dashOk" "lastNonBadgeLoop description (int (length description) - 1) = int k" for k
    using assms that c
    by (auto simp: validateListItemDescription_def Let_def nodeLength_def)
  show ?thesis
  proof (intro conjI impI allI)
    assume "ntype (description ! 0) \<noteq> ''text''
       \<or> \<not> validateListItemPrefix ext (toString (rootOf description)) (toString (description ! 0))"
    then show "validateListItemDescription ext description
           = (Some False,
              [(if reInvalidWhitespace (toString (description ! 0)) then InvalidWhitespace
                else if reInvalidDash (toString (description ! 0)) then InvalidDash
                else MissingDash, Some (description ! 0))])"
      using dash by blast
  next
    fix k
    assume "?dashOk" "lastNonBadgeLoop description (int (length description) - 1) = int k"
      "ntype (description ! k) \<notin> set listItemDescriptionSuffixNodeAllowList
               \<or> ntype (description ! k) = ''text''
                  \<and> \<not> validateListItemSuffix ext (lastSuffixText description k)
                        (toString (description ! k))"
    then show "validateListItemDescription ext description
                   = (Some False, [(ProperPunctuation, Some (description ! k))])"
      using rest[of k] by simp
  next
    fix k
    assume "?dashOk" "lastNonBadgeLoop description (int (length description) - 1) = int k"
      "ntype (description ! k) \<in> set listItemDescriptionSuffixNodeAllowList
                 \<and> (ntype (description ! k) = ''text''
                      \<longrightarrow> validateListItemSuffix ext (lastSuffixText description k)
                            (toString (description ! k)))"
      "k = 0"
    then show "validateListItemDescription ext description
                      = (if fst (validateListItemPrefixCasing ext (description ! 0))
                         then (Some True, [])
                         else (Some False, snd (validateListItemPrefixCasing ext (description ! 0))))"
      using rest[of k] by auto
  next
    fix k n
    assume "?dashOk" "lastNonBadgeLoop description (int (length description) - 1) = int k"
      "ntype (description ! k) \<in> set listItemDescriptionSuffixNodeAllowList
                 \<and> (ntype (description ! k) = ''text''
                      \<longrightarrow> validateListItemSuffix ext (lastSuffixText description k)
                            (toString (description ! k)))"
      "0 < k"
      "find (\<lambda>node. ntype node \<notin> set listItemDescriptionNodeAllowList)
                           (beforeBadges description k) = Some n"
    then show "validateListItemDescription ext description
                               = (Some False, [(InvalidMarkdown, Some n)])"
      using rest[of k] by auto
  qed
qed

text \<open>
  C6. An entry gets at most one message, and it is the message of the first check that
  fails: an entry with no paragraph in front gets "Invalid list item" alone; when
  \<open>validateListItemLink\<close> fails the entry gets its message alone, and the children and the
  description are not looked at; when it passes and \<open>validateListItemLinkChildren\<close> fails
  the entry gets that message alone; when both pass the entry gets what the description
  gets, one message when the description fails and none otherwise. Within a
  description that is not empty and no special case, the steps are taken in order and
  the first that fails gives the message: the check of the dash, then the node before
  the badges and its punctuation, then the casing (when that node is the first) or the
  types of the nodes (when it is not). Every validator emits exactly one message when
  it returns false and none otherwise. The messages of a
  list, and of a sequence of lists, are those of their entries one after the other, each
  entry judged on its own, whatever came before it.
\<close>

theorem one_message_per_entry:
  "(description \<noteq> []
      \<and> \<not> validateListItemSpecialCases ext description (toString (rootOf description))
    \<longrightarrow>
   (ntype (description ! 0) \<noteq> ''text''
       \<or> \<not> validateListItemPrefix ext (toString (rootOf description)) (toString (description ! 0))
     \<longrightarrow> validateListItemDescription ext description
           = (Some False,
              [(if reInvalidWhitespace (toString (description ! 0)) then InvalidWhitespace
                else if reInvalidDash (toString (description ! 0)) then InvalidDash
                else MissingDash, Some (description ! 0))]))
    \<and> (ntype (description ! 0) = ''text''
         \<and> validateListItemPrefix ext (toString (rootOf description)) (toString (description ! 0))
       \<longrightarrow>
         (\<forall>k. lastNonBadgeLoop description (int (length description) - 1) = int k \<longrightarrow>
            (ntype (description ! k) \<notin> set listItemDescriptionSuffixNodeAllowList
               \<or> ntype (description ! k) = ''text''
                  \<and> \<not> validateListItemSuffix ext (lastSuffixText description k)
                        (toString (description ! k))
             \<longrightarrow> validateListItemDescription ext description
                   = (Some False, [(ProperPunctuation, Some (description ! k))]))
            \<and> (ntype (description ! k) \<in> set listItemDescriptionSuffixNodeAllowList
                 \<and> (ntype (description ! k) = ''text''
                      \<longrightarrow> validateListItemSuffix ext (lastSuffixText description k)
                            (toString (description ! k)))
               \<longrightarrow>
                 (k = 0 \<longrightarrow>
                    validateListItemDescription ext description
                      = (if fst (validateListItemPrefixCasing ext (description ! 0))
                         then (Some True, [])
                         else (Some False, snd (validateListItemPrefixCasing ext (description ! 0)))))
                 \<and> (0 < k \<longrightarrow>
                    (\<forall>n. find (\<lambda>node. ntype node \<notin> set listItemDescriptionNodeAllowList)
                           (beforeBadges description k) = Some n
                         \<longrightarrow> validateListItemDescription ext description
                               = (Some False, [(InvalidMarkdown, Some n)])))))))
   \<and> length (validateListItem ext listItem) \<le> 1
   \<and> (fst (validateListItemLink ext link) \<and> snd (validateListItemLink ext link) = []
        \<or> \<not> fst (validateListItemLink ext link)
           \<and> length (snd (validateListItemLink ext link)) = 1)
   \<and> (fst (validateListItemLinkChildren link) \<and> snd (validateListItemLinkChildren link) = []
        \<or> \<not> fst (validateListItemLinkChildren link)
           \<and> length (snd (validateListItemLinkChildren link)) = 1)
   \<and> (fst (validateListItemDescription ext description) \<noteq> Some False
          \<and> snd (validateListItemDescription ext description) = []
        \<or> fst (validateListItemDescription ext description) = Some False
           \<and> length (snd (validateListItemDescription ext description)) = 1)
   \<and> validateList ext list acc = acc @ concat (map (validateListItem ext) (nchildren list))
   \<and> validateLists ext ls acc =
       acc @ concat (map (\<lambda>l. concat (map (validateListItem ext) (nchildren l))) ls)
   \<and> (nchildren listItem = [] \<longrightarrow> validateListItem ext listItem = [(InvalidListItem, None)])
   \<and> (\<forall>paragraph others. nchildren listItem = paragraph # others \<longrightarrow>
        (ntype paragraph \<noteq> ''paragraph'' \<or> nchildren paragraph = [] \<longrightarrow>
           validateListItem ext listItem = [(InvalidListItem, Some paragraph)])
        \<and> (ntype paragraph = ''paragraph'' \<and> nchildren paragraph \<noteq> []
             \<and> ntype (nchildren paragraph ! 0) \<noteq> ''text'' \<longrightarrow>
           (\<forall>l d. skipFiller (nchildren paragraph ! 0) (drop 1 (nchildren paragraph)) = (l, d)
              \<longrightarrow>
              (\<not> fst (validateListItemLink ext l) \<longrightarrow>
                 validateListItem ext listItem = snd (validateListItemLink ext l)
                 \<and> length (validateListItem ext listItem) = 1)
              \<and> (fst (validateListItemLink ext l) \<and> \<not> fst (validateListItemLinkChildren l)
                   \<longrightarrow>
                 validateListItem ext listItem = snd (validateListItemLinkChildren l)
                 \<and> length (validateListItem ext listItem) = 1)
              \<and> (fst (validateListItemLink ext l) \<and> fst (validateListItemLinkChildren l)
                   \<longrightarrow>
                 validateListItem ext listItem = snd (validateListItemDescription ext d)
                 \<and> (fst (validateListItemDescription ext d) = Some False
                      \<longrightarrow> length (validateListItem ext listItem) = 1)
                 \<and> (fst (validateListItemDescription ext d) \<noteq> Some False
                      \<longrightarrow> validateListItem ext listItem = [])))))"
proof -
  have a: "fst (validateListItemLink ext link) \<and> snd (validateListItemLink ext link) = []
        \<or> \<not> fst (validateListItemLink ext link)
           \<and> length (snd (validateListItemLink ext link)) = 1"
    using link_messages[of ext link] by (cases "validateListItemLink ext link") auto
  have b: "fst (validateListItemLinkChildren link) \<and> snd (validateListItemLinkChildren link) = []
        \<or> \<not> fst (validateListItemLinkChildren link)
           \<and> length (snd (validateListItemLinkChildren link)) = 1"
    using children_messages[of link] by (cases "validateListItemLinkChildren link") auto
  have c: "fst (validateListItemDescription ext description) \<noteq> Some False
          \<and> snd (validateListItemDescription ext description) = []
        \<or> fst (validateListItemDescription ext description) = Some False
           \<and> length (snd (validateListItemDescription ext description)) = 1"
    using description_messages[of ext description]
    by (cases "validateListItemDescription ext description") auto
  have d: "nchildren listItem = [] \<longrightarrow> validateListItem ext listItem = [(InvalidListItem, None)]"
    by (simp add: validateListItem_def)
  have e: "nchildren listItem = par # others \<Longrightarrow>
           ntype par \<noteq> ''paragraph'' \<or> nchildren par = [] \<Longrightarrow>
           validateListItem ext listItem = [(InvalidListItem, Some par)]"
    for par others
    by (auto simp: validateListItem_def)
  have old: "length (validateListItem ext listItem) \<le> 1
   \<and> (fst (validateListItemLink ext link) \<and> snd (validateListItemLink ext link) = []
        \<or> \<not> fst (validateListItemLink ext link)
           \<and> length (snd (validateListItemLink ext link)) = 1)
   \<and> (fst (validateListItemLinkChildren link) \<and> snd (validateListItemLinkChildren link) = []
        \<or> \<not> fst (validateListItemLinkChildren link)
           \<and> length (snd (validateListItemLinkChildren link)) = 1)
   \<and> (fst (validateListItemDescription ext description) \<noteq> Some False
          \<and> snd (validateListItemDescription ext description) = []
        \<or> fst (validateListItemDescription ext description) = Some False
           \<and> length (snd (validateListItemDescription ext description)) = 1)
   \<and> validateList ext list acc = acc @ concat (map (validateListItem ext) (nchildren list))
   \<and> validateLists ext ls acc =
       acc @ concat (map (\<lambda>l. concat (map (validateListItem ext) (nchildren l))) ls)
   \<and> (nchildren listItem = [] \<longrightarrow> validateListItem ext listItem = [(InvalidListItem, None)])
   \<and> (\<forall>paragraph others. nchildren listItem = paragraph # others \<longrightarrow>
        (ntype paragraph \<noteq> ''paragraph'' \<or> nchildren paragraph = [] \<longrightarrow>
           validateListItem ext listItem = [(InvalidListItem, Some paragraph)])
        \<and> (ntype paragraph = ''paragraph'' \<and> nchildren paragraph \<noteq> []
             \<and> ntype (nchildren paragraph ! 0) \<noteq> ''text'' \<longrightarrow>
           (\<forall>l d. skipFiller (nchildren paragraph ! 0) (drop 1 (nchildren paragraph)) = (l, d)
              \<longrightarrow>
              (\<not> fst (validateListItemLink ext l) \<longrightarrow>
                 validateListItem ext listItem = snd (validateListItemLink ext l)
                 \<and> length (validateListItem ext listItem) = 1)
              \<and> (fst (validateListItemLink ext l) \<and> \<not> fst (validateListItemLinkChildren l)
                   \<longrightarrow>
                 validateListItem ext listItem = snd (validateListItemLinkChildren l)
                 \<and> length (validateListItem ext listItem) = 1)
              \<and> (fst (validateListItemLink ext l) \<and> fst (validateListItemLinkChildren l)
                   \<longrightarrow>
                 validateListItem ext listItem = snd (validateListItemDescription ext d)
                 \<and> (fst (validateListItemDescription ext d) = Some False
                      \<longrightarrow> length (validateListItem ext listItem) = 1)
                 \<and> (fst (validateListItemDescription ext d) \<noteq> Some False
                      \<longrightarrow> validateListItem ext listItem = [])))))"
    using a b c d e entry_messages validateList_concat validateLists_concat
      entry_decision[of listItem _ _ _ _ ext]
    by (intro conjI allI impI) blast+
  have new: "description \<noteq> []
      \<and> \<not> validateListItemSpecialCases ext description (toString (rootOf description))
    \<longrightarrow>
   (ntype (description ! 0) \<noteq> ''text''
       \<or> \<not> validateListItemPrefix ext (toString (rootOf description)) (toString (description ! 0))
     \<longrightarrow> validateListItemDescription ext description
           = (Some False,
              [(if reInvalidWhitespace (toString (description ! 0)) then InvalidWhitespace
                else if reInvalidDash (toString (description ! 0)) then InvalidDash
                else MissingDash, Some (description ! 0))]))
    \<and> (ntype (description ! 0) = ''text''
         \<and> validateListItemPrefix ext (toString (rootOf description)) (toString (description ! 0))
       \<longrightarrow>
         (\<forall>k. lastNonBadgeLoop description (int (length description) - 1) = int k \<longrightarrow>
            (ntype (description ! k) \<notin> set listItemDescriptionSuffixNodeAllowList
               \<or> ntype (description ! k) = ''text''
                  \<and> \<not> validateListItemSuffix ext (lastSuffixText description k)
                        (toString (description ! k))
             \<longrightarrow> validateListItemDescription ext description
                   = (Some False, [(ProperPunctuation, Some (description ! k))]))
            \<and> (ntype (description ! k) \<in> set listItemDescriptionSuffixNodeAllowList
                 \<and> (ntype (description ! k) = ''text''
                      \<longrightarrow> validateListItemSuffix ext (lastSuffixText description k)
                            (toString (description ! k)))
               \<longrightarrow>
                 (k = 0 \<longrightarrow>
                    validateListItemDescription ext description
                      = (if fst (validateListItemPrefixCasing ext (description ! 0))
                         then (Some True, [])
                         else (Some False, snd (validateListItemPrefixCasing ext (description ! 0)))))
                 \<and> (0 < k \<longrightarrow>
                    (\<forall>n. find (\<lambda>node. ntype node \<notin> set listItemDescriptionNodeAllowList)
                           (beforeBadges description k) = Some n
                         \<longrightarrow> validateListItemDescription ext description
                               = (Some False, [(InvalidMarkdown, Some n)]))))))"
    using description_decision[of description ext] by blast
  show ?thesis by (rule conjI[OF new old])
qed

theorem one_message_per_entry_witness:
  "validateList exampleEnv twoEntries [] = [(InvalidDash, Some enDashText)]
   \<and> length (validateListItem exampleEnv (entry [fooLink, enDashText])) \<le> 1
   \<and> \<not> fst (validateListItemLink exampleEnv badUrlLink)
   \<and> fst (validateListItemDescription exampleEnv [enDashText]) = Some False
   \<and> validateListItem exampleEnv (entry [badUrlLink, enDashText])
       = [(InvalidListItemLinkURL, Some badUrlLink)]"
proof -
  have bad: "validateListItem exampleEnv (entry [fooLink, enDashText])
               = [(InvalidDash, Some enDashText)]"
    by (simp add: enDashText_def unfold_all)
  have good: "validateListItem exampleEnv (entry [fooLink, text_node (js '' - Done.'')]) = []"
    by (simp add: unfold_all)
  have kids: "nchildren twoEntries
      = [entry [fooLink, enDashText], entry [fooLink, text_node (js '' - Done.'')]]"
    by (simp add: twoEntries_def parent_node_def)
  have k: "nchildren (entry [badUrlLink, enDashText])
             = [parent_node ''paragraph'' [badUrlLink, enDashText]]"
    "ntype (parent_node ''paragraph'' [badUrlLink, enDashText]) = ''paragraph''"
    "nchildren (parent_node ''paragraph'' [badUrlLink, enDashText]) \<noteq> []"
    "ntype (nchildren (parent_node ''paragraph'' [badUrlLink, enDashText]) ! 0) \<noteq> ''text''"
    by (simp_all add: entry_def parent_node_def badUrlLink_def link_node_def)
  have sk: "skipFiller (nchildren (parent_node ''paragraph'' [badUrlLink, enDashText]) ! 0)
              (drop 1 (nchildren (parent_node ''paragraph'' [badUrlLink, enDashText])))
            = (badUrlLink, [enDashText])"
    by (simp add: skipFiller.simps skipping_def parent_node_def badUrlLink_def link_node_def)
  have lk: "validateListItemLink exampleEnv badUrlLink
              = (False, [(InvalidListItemLinkURL, Some badUrlLink)])"
    by (simp add: unfold_all)
  have ds: "fst (validateListItemDescription exampleEnv [enDashText]) = Some False"
    by (simp add: enDashText_def unfold_all)
  from one_message_per_entry[where ext = exampleEnv
      and listItem = "entry [fooLink, enDashText]" and link = fooLink and description = "[]"
      and list = twoEntries and acc = "[]" and ls = "[]", THEN conjunct2]
  have one: "validateList exampleEnv twoEntries [] = [(InvalidDash, Some enDashText)]
     \<and> length (validateListItem exampleEnv (entry [fooLink, enDashText])) \<le> 1"
    by (simp add: kids bad good)
  from one_message_per_entry[where ext = exampleEnv
      and listItem = "entry [badUrlLink, enDashText]" and link = fooLink
      and description = "[]" and list = twoEntries and acc = "[]" and ls = "[]",
      THEN conjunct2] k sk lk
  have "validateListItem exampleEnv (entry [badUrlLink, enDashText])
          = [(InvalidListItemLinkURL, Some badUrlLink)]"
    by auto
  with one lk ds show ?thesis by simp
qed

section \<open>The loop that skips leading nodes\<close>

lemma skipFiller_result:
  "\<exists>n. n \<le> length description - 1
     \<and> skipFiller link description
         = (if n = 0 then link else description ! (n - 1), drop n description)
     \<and> \<not> skipping (fst (skipFiller link description)) (snd (skipFiller link description))"
proof (induction link description rule: skipFiller.induct)
  case (1 link description)
  show ?case
  proof (cases "skipping link description")
    case False
    then show ?thesis by (intro exI[of _ 0]) (simp add: skipFiller.simps)
  next
    case True
    then have len: "length description > 1" by (simp add: skipping_def)
    from 1[OF True] obtain n where n: "n \<le> length (drop 1 description) - 1"
      "skipFiller (description ! 0) (drop 1 description)
         = (if n = 0 then description ! 0 else drop 1 description ! (n - 1),
            drop n (drop 1 description))"
      "\<not> skipping (fst (skipFiller (description ! 0) (drop 1 description)))
                   (snd (skipFiller (description ! 0) (drop 1 description)))"
      by blast
    have eq: "skipFiller link description = skipFiller (description ! 0) (drop 1 description)"
      using True by (subst skipFiller.simps) simp
    show ?thesis
      using n len by (intro exI[of _ "Suc n"]) (auto simp: eq)
  qed
qed

text \<open>
  C9. The loop returns: after some number \<open>n\<close> of rounds, at most the length of the
  description less one, with the description less its first \<open>n\<close> nodes and with the
  loop condition false. Each round makes the description shorter. When the loop ran at
  all, the description it leaves is not empty.
\<close>

theorem skipFiller_returns:
  "(skipping link description \<longrightarrow> length (drop 1 description) < length description)
   \<and> (\<exists>n. n \<le> length description - 1
         \<and> skipFiller link description
             = (if n = 0 then link else description ! (n - 1), drop n description))
   \<and> \<not> skipping (fst (skipFiller link description)) (snd (skipFiller link description))
   \<and> (skipping link description \<longrightarrow> snd (skipFiller link description) \<noteq> [])"
proof -
  from skipFiller_result[of description link] obtain n where
    n: "n \<le> length description - 1"
       "skipFiller link description
          = (if n = 0 then link else description ! (n - 1), drop n description)"
       "\<not> skipping (fst (skipFiller link description)) (snd (skipFiller link description))"
    by blast
  have "skipping link description \<Longrightarrow> snd (skipFiller link description) \<noteq> []"
    using n(1,2) by (auto simp: skipping_def)
  moreover have "skipping link description \<Longrightarrow> length (drop 1 description) < length description"
    by (auto simp: skipping_def)
  ultimately show ?thesis using n by blast
qed

theorem skipFiller_returns_witness:
  "skipping imageNode fillerDescription
   \<and> skipFiller imageNode fillerDescription = (fooLink, [text_node (js '' - Done.'')])
   \<and> snd (skipFiller imageNode fillerDescription) \<noteq> []"
proof -
  have s: "skipping imageNode fillerDescription"
    by (simp add: skipping_def imageNode_def fillerDescription_def)
  have e: "skipFiller imageNode fillerDescription = (fooLink, [text_node (js '' - Done.'')])"
    by (simp add: skipFiller.simps skipping_def imageNode_def fillerDescription_def
          fooLink_def link_node_def)
  from skipFiller_returns[of imageNode fillerDescription] s e show ?thesis by blast
qed

section \<open>Entries that open with text\<close>

text \<open>
  C7. An entry whose first child is a paragraph whose first child is a text node gets no
  message at all, whatever the other nodes are.
\<close>

theorem text_led_entry_accepted:
  "nchildren listItem = paragraph # others \<Longrightarrow> ntype paragraph = ''paragraph'' \<Longrightarrow>
   nchildren paragraph = first # rest \<Longrightarrow> ntype first = ''text'' \<Longrightarrow>
   validateListItem ext listItem = []"
  by (simp add: validateListItem_def)

theorem text_led_entry_accepted_witness:
  "validateListItem exampleEnv textLedEntry = []
   \<and> validateListItem exampleEnv (entry [imageNode]) = [(InvalidListItemLink, Some imageNode)]"
proof -
  have "validateListItem exampleEnv textLedEntry = []"
    by (rule text_led_entry_accepted[of _ "parent_node ''paragraph'' [text_node (js ''see also''), imageNode]"
          "[]" "text_node (js ''see also'')" "[imageNode]"])
       (simp_all add: textLedEntry_def entry_def parent_node_def text_node_def)
  moreover have "validateListItem exampleEnv (entry [imageNode])
                   = [(InvalidListItemLink, Some imageNode)]"
    by (simp add: unfold_all)
  ultimately show ?thesis by simp
qed

section \<open>References\<close>

lemma children_first_offending:
  assumes "i < length (nchildren link)"
    "ntype (nchildren link ! i) \<notin> set listItemLinkNodeAllowList"
    "\<forall>j<i. ntype (nchildren link ! j) \<in> set listItemLinkNodeAllowList"
  shows "validateListItemLinkChildren link = (False, [(InvalidListItemLink, Some (nchildren link ! i))])"
proof -
  have "find (\<lambda>node. ntype node \<notin> set listItemLinkNodeAllowList) (nchildren link)
          = Some (nchildren link ! i)"
    unfolding find_Some_iff using assms by blast
  then show ?thesis by (simp add: validateListItemLinkChildren_def)
qed

lemma children_all_allowed:
  "validateListItemLinkChildren link = (True, [])
     \<longleftrightarrow> (\<forall>c \<in> set (nchildren link). ntype c \<in> set listItemLinkNodeAllowList)"
proof -
  have "validateListItemLinkChildren link = (True, [])
          \<longleftrightarrow> find (\<lambda>node. ntype node \<notin> set listItemLinkNodeAllowList) (nchildren link) = None"
    by (simp add: validateListItemLinkChildren_def split: option.splits)
  also have "\<dots> \<longleftrightarrow> (\<forall>c \<in> set (nchildren link). ntype c \<in> set listItemLinkNodeAllowList)"
    by (auto simp: find_None_iff)
  finally show ?thesis .
qed

lemma reference_entry:
  assumes "ntype link = ''linkReference''" "nchildren listItem = paragraph # others"
    "ntype paragraph = ''paragraph''" "nchildren paragraph = link # description"
  shows "validateListItem ext listItem
           = (if fst (validateListItemLinkChildren link)
              then snd (validateListItemDescription ext description)
              else snd (validateListItemLinkChildren link))"
proof -
  have s: "skipFiller link description = (link, description)"
    using assms(1) by (subst skipFiller.simps) (simp add: skipping_def)
  have l: "validateListItemLink ext link = (True, [])"
    using assms(1) by (simp add: validateListItemLink_def)
  show ?thesis
    using assms(1,2,3,4) s l
    by (cases "validateListItemLinkChildren link")
       (auto simp: validateListItem_def validateListItemLink_def dest: children_messages)
qed

text \<open>
  C3, as the code has it. \<open>validateListItemLink\<close> accepts every linkReference and
  emits nothing, whatever its url, text and children. The check of the children that
  follows in \<open>validateList\<close> is made on references as on links. It passes exactly when
  every child is an emphasis, an inlineCode or a text, and then the entry that opens
  with the reference gets the messages of its description and no other. Otherwise it
  reports "Invalid list item link" at the first child of another type, and this is the
  one message of the entry.
\<close>

theorem linkReference_valid:
  "ntype link = ''linkReference'' \<Longrightarrow>
   validateListItemLink ext link = (True, []) \<and>
   (validateListItemLinkChildren link = (True, [])
      \<longleftrightarrow> (\<forall>c \<in> set (nchildren link). ntype c \<in> set listItemLinkNodeAllowList)) \<and>
   (\<forall>i. i < length (nchildren link)
        \<and> ntype (nchildren link ! i) \<notin> set listItemLinkNodeAllowList
        \<and> (\<forall>j<i. ntype (nchildren link ! j) \<in> set listItemLinkNodeAllowList)
      \<longrightarrow> validateListItemLinkChildren link
            = (False, [(InvalidListItemLink, Some (nchildren link ! i))])) \<and>
   (\<forall>listItem paragraph others description.
      nchildren listItem = paragraph # others \<and> ntype paragraph = ''paragraph''
        \<and> nchildren paragraph = link # description
      \<longrightarrow>
      ((\<forall>c \<in> set (nchildren link). ntype c \<in> set listItemLinkNodeAllowList)
         \<longrightarrow> validateListItem ext listItem = snd (validateListItemDescription ext description))
      \<and> (\<forall>i. i < length (nchildren link)
             \<and> ntype (nchildren link ! i) \<notin> set listItemLinkNodeAllowList
             \<and> (\<forall>j<i. ntype (nchildren link ! j) \<in> set listItemLinkNodeAllowList)
           \<longrightarrow> validateListItem ext listItem
                 = [(InvalidListItemLink, Some (nchildren link ! i))]))"
proof -
  assume r: "ntype link = ''linkReference''"
  then have a: "validateListItemLink ext link = (True, [])"
    by (simp add: validateListItemLink_def)
  have e: "validateListItem ext item
             = (if fst (validateListItemLinkChildren link)
                then snd (validateListItemDescription ext descr)
                else snd (validateListItemLinkChildren link))"
    if "nchildren item = par # others" "ntype par = ''paragraph''"
       "nchildren par = link # descr"
    for item par others descr
    using reference_entry[OF r that] .
  show ?thesis
  proof (intro conjI allI impI)
    show "validateListItemLink ext link = (True, [])" by (rule a)
    show "validateListItemLinkChildren link = (True, [])
            \<longleftrightarrow> (\<forall>c \<in> set (nchildren link). ntype c \<in> set listItemLinkNodeAllowList)"
      by (rule children_all_allowed)
  next
    fix i
    assume "i < length (nchildren link)
        \<and> ntype (nchildren link ! i) \<notin> set listItemLinkNodeAllowList
        \<and> (\<forall>j<i. ntype (nchildren link ! j) \<in> set listItemLinkNodeAllowList)"
    then show "validateListItemLinkChildren link
            = (False, [(InvalidListItemLink, Some (nchildren link ! i))])"
      using children_first_offending by blast
  next
    fix item :: node and par others descr
    assume h: "nchildren item = par # others \<and> ntype par = ''paragraph''
        \<and> nchildren par = link # descr"
    assume "\<forall>c \<in> set (nchildren link). ntype c \<in> set listItemLinkNodeAllowList"
    then have "validateListItemLinkChildren link = (True, [])"
      by (simp add: children_all_allowed)
    with e[of item par others descr] h
    show "validateListItem ext item = snd (validateListItemDescription ext descr)"
      by simp
  next
    fix item :: node and par others descr i
    assume h: "nchildren item = par # others \<and> ntype par = ''paragraph''
        \<and> nchildren par = link # descr"
    assume "i < length (nchildren link)
        \<and> ntype (nchildren link ! i) \<notin> set listItemLinkNodeAllowList
        \<and> (\<forall>j<i. ntype (nchildren link ! j) \<in> set listItemLinkNodeAllowList)"
    then have "validateListItemLinkChildren link
            = (False, [(InvalidListItemLink, Some (nchildren link ! i))])"
      using children_first_offending by blast
    with e[of item par others descr] h
    show "validateListItem ext item = [(InvalidListItemLink, Some (nchildren link ! i))]"
      by simp
  qed
qed

theorem linkReference_valid_witness:
  "ntype plainReference = ''linkReference''
   \<and> validateListItemLink exampleEnv plainReference = (True, [])
   \<and> validateListItemLinkChildren plainReference = (True, [])
   \<and> validateListItem exampleEnv (entry [plainReference, text_node (js '' - Done.'')]) = []
   \<and> ntype strongReference = ''linkReference''
   \<and> validateListItemLinkChildren strongReference
       = (False, [(InvalidListItemLink, Some strongNode)])"
proof -
  have t: "ntype plainReference = ''linkReference''"
    by (simp add: plainReference_def linkReference_node_def)
  have k: "\<forall>c \<in> set (nchildren plainReference). ntype c \<in> set listItemLinkNodeAllowList"
    by (simp add: plainReference_def linkReference_node_def text_node_def
          listItemLinkNodeAllowList_def)
  have p: "nchildren (entry [plainReference, text_node (js '' - Done.'')])
             = parent_node ''paragraph'' [plainReference, text_node (js '' - Done.'')] # []
           \<and> ntype (parent_node ''paragraph'' [plainReference, text_node (js '' - Done.'')])
               = ''paragraph''
           \<and> nchildren (parent_node ''paragraph'' [plainReference, text_node (js '' - Done.'')])
               = plainReference # [text_node (js '' - Done.'')]"
    by (simp add: entry_def parent_node_def)
  have d: "snd (validateListItemDescription exampleEnv [text_node (js '' - Done.'')]) = []"
    by (simp add: unfold_all)
  have ts: "ntype strongReference = ''linkReference''"
    by (simp add: strongReference_def linkReference_node_def)
  have ks: "0 < length (nchildren strongReference)
        \<and> ntype (nchildren strongReference ! 0) \<notin> set listItemLinkNodeAllowList
        \<and> (\<forall>j<0. ntype (nchildren strongReference ! j) \<in> set listItemLinkNodeAllowList)"
    "nchildren strongReference ! 0 = strongNode"
    by (simp_all add: strongReference_def linkReference_node_def strongNode_def parent_node_def
          listItemLinkNodeAllowList_def)
  note plain = linkReference_valid[OF t, of exampleEnv]
  note strong = linkReference_valid[OF ts, of exampleEnv]
  have l: "validateListItemLink exampleEnv plainReference = (True, [])"
    by (rule plain[THEN conjunct1])
  have c: "validateListItemLinkChildren plainReference = (True, [])"
    using plain[THEN conjunct2, THEN conjunct1] k by simp
  have e: "validateListItem exampleEnv (entry [plainReference, text_node (js '' - Done.'')])
             = snd (validateListItemDescription exampleEnv [text_node (js '' - Done.'')])"
    by (rule plain[THEN conjunct2, THEN conjunct2, THEN conjunct2, rule_format, OF p,
          THEN conjunct1, THEN mp, OF k])
  have s: "validateListItemLinkChildren strongReference
             = (False, [(InvalidListItemLink, Some (nchildren strongReference ! 0))])"
    by (rule strong[THEN conjunct2, THEN conjunct2, THEN conjunct1, rule_format, OF ks(1)])
  from l c e d s ks(2) t ts show ?thesis by simp
qed

text \<open>
  As the specification words it, the property fails: a reference with a strong child is
  a linkReference, and the entry gets the message "Invalid list item link", pointing at
  the child.
\<close>

theorem linkReference_valid_counterexample:
  "ntype strongReference = ''linkReference''
   \<and> validateListItem exampleEnv (entry [strongReference, text_node (js '' - Done.'')])
       = [(InvalidListItemLink, Some strongNode)]"
  by (simp add: strongReference_def unfold_all)

section \<open>The punctuation at the end\<close>

lemma quote_not_punctuation: "isQuote c \<Longrightarrow> \<not> isPunctuation c"
  by (auto simp: isQuote_def isPunctuation_def js_def)

lemma final_run_unique:
  assumes "u @ q # p = u' @ q' # p'" "\<forall>c \<in> set p. P c" "\<forall>c \<in> set p'. P c" "\<not> P q" "\<not> P q'"
  shows "u = u' \<and> q = q' \<and> p = p'"
proof -
  have "takeWhile P (rev (u @ q # p)) = rev p"
    using assms(2,4) by (simp add: takeWhile_tail takeWhile_eq_all_conv)
  moreover have "takeWhile P (rev (u' @ q' # p')) = rev p'"
    using assms(3,5) by (simp add: takeWhile_tail takeWhile_eq_all_conv)
  ultimately have p: "p = p'" using assms(1) by simp
  with assms(1) have "u @ [q] = u' @ [q']" by simp
  with p show ?thesis by simp
qed

lemma quote_then_punctuation:
  assumes "\<not> reFullyBackticked s" "isQuote q" "p \<noteq> []" "\<forall>c \<in> set p. isPunctuation c" "s = u @ q # p"
  shows "validateListItemSuffix ext s suf = (u = [] \<or> \<not> isPunctuation (last u))"
proof -
  have a: "reQuoteThenPunctuation s"
    unfolding reQuoteThenPunctuation_iff using assms by blast
  have b: "rePunctuationQuotePunctuation s \<longleftrightarrow> (u \<noteq> [] \<and> isPunctuation (last u))"
  proof
    assume "rePunctuationQuotePunctuation s"
    then obtain u' x q' p' where d: "s = u' @ x # q' # p'" "isPunctuation x" "isQuote q'" "p' \<noteq> []"
        "\<forall>c \<in> set p'. isPunctuation c"
      unfolding rePunctuationQuotePunctuation_iff by blast
    then have "u @ q # p = (u' @ [x]) @ q' # p'" using assms(5) by simp
    from final_run_unique[OF this assms(4) d(5)] assms(2) d(3)
    have "u = u' @ [x]" by (simp add: quote_not_punctuation)
    with d(2) show "u \<noteq> [] \<and> isPunctuation (last u)" by simp
  next
    assume "u \<noteq> [] \<and> isPunctuation (last u)"
    then have "s = butlast u @ last u # q # p" "isPunctuation (last u)"
      using assms(5) by simp_all
    with assms(2,3,4) show "rePunctuationQuotePunctuation s"
      unfolding rePunctuationQuotePunctuation_iff by blast
  qed
  show ?thesis using assms(1) a b by (auto simp: validateListItemSuffix_def)
qed

lemma punctuation_then_quote:
  assumes "\<not> reFullyBackticked s" "isPunctuation x" "isQuote q" "s = u @ [x, q]"
  shows "validateListItemSuffix ext s suf"
proof -
  have "\<not> reQuoteThenPunctuation s"
  proof
    assume "reQuoteThenPunctuation s"
    then obtain u' q' p' where d: "s = u' @ q' # p'" "p' \<noteq> []" "\<forall>c \<in> set p'. isPunctuation c"
      unfolding reQuoteThenPunctuation_iff by blast
    then have "last s = last p'" by simp
    moreover have "last s = q" using assms(4) by simp
    ultimately have "isPunctuation q" using d(2,3) last_in_set by metis
    with assms(3) show False by (simp add: quote_not_punctuation)
  qed
  moreover have "rePunctuationThenQuote s"
    unfolding rePunctuationThenQuote_iff using assms by blast
  ultimately show ?thesis using assms(1) by (simp add: validateListItemSuffix_def)
qed

lemma no_punctuation:
  assumes "\<not> reFullyBackticked s" "\<not> list_ex isPunctuation s"
  shows "validateListItemSuffix ext s suf \<longleftrightarrow>
           length (tokenizeWords s) \<le> 2 \<and> tokenizeWords s \<noteq> []
           \<and> textEndsWithEmoji ext (last (tokenizeWords s))
           \<and> (reClosingParenthesis suf \<or> textEndsWithEmoji ext suf)"
proof -
  have none: "\<forall>c \<in> set s. \<not> isPunctuation c" using assms(2) by (simp add: list_ex_iff)
  have a: "\<not> reQuoteThenPunctuation s"
    unfolding reQuoteThenPunctuation_iff using none by (auto simp: neq_Nil_conv)
  have b: "\<not> rePunctuationThenQuote s"
    unfolding rePunctuationThenQuote_iff using none by auto
  have c: "\<not> reHasPunctuation s"
    unfolding reHasPunctuation_iff using none by blast
  show ?thesis
    using assms(1) a b c
    by (auto simp: validateListItemSuffix_def lastTokenEndsWithEmoji_def Let_def split: list.splits)
qed

lemma scenarioE_valid:
  assumes "isUrl ext (js ''https://example.com'')"
    "textEndsWithEmoji ext [checkMark]"
    "textEndsWithEmoji ext (js '' - Done '' @ [checkMark])"
    "caseOf ext (js ''Done'') = Some ''capital''"
  shows "validateListItem ext scenarioE = []"
  using assms
  by (simp add: validator_defs allow_defs node_defs char_defs regex_defs
        lastTokenEndsWithEmoji_def tokenizeWords_def startsWith_def valueOf_def)

text \<open>
  C4, as the code has it. Let the text not be one backticked span. When it ends in
  a double quote followed by terminal punctuation up to the end, the check passes
  unless a terminal punctuation mark stands right before that quote, and then it fails.
  When it ends in a double quote with a terminal punctuation mark right before it, the
  check passes, whatever stands before that mark.
\<close>

theorem quote_punctuation_rule:
  assumes "\<not> reFullyBackticked s"
  shows "(isQuote q \<and> p \<noteq> [] \<and> (\<forall>c \<in> set p. isPunctuation c) \<and> s = u @ q # p
            \<longrightarrow> validateListItemSuffix ext s suf = (u = [] \<or> \<not> isPunctuation (last u)))
         \<and> (isPunctuation x \<and> isQuote q' \<and> s = v @ [x, q']
            \<longrightarrow> validateListItemSuffix ext s suf)"
  using quote_then_punctuation[OF assms, of q p u ext suf]
    punctuation_then_quote[OF assms, of x q' v ext suf]
  by blast

theorem quote_punctuation_rule_witness:
  "\<not> reFullyBackticked quoteThenStop \<and> \<not> reFullyBackticked stopQuoteStop
   \<and> validateListItemSuffix exampleEnv quoteThenStop []
   \<and> \<not> validateListItemSuffix exampleEnv stopQuoteStop []"
proof -
  have a: "\<not> reFullyBackticked quoteThenStop"
    by (simp add: quoteThenStop_def regex_defs char_defs)
  have b: "\<not> reFullyBackticked stopQuoteStop"
    by (simp add: stopQuoteStop_def regex_defs char_defs)
  have q: "isQuote 0x22" "isPunctuation 0x2E" "\<forall>c \<in> set [0x2E]. isPunctuation c"
    by (simp_all add: isQuote_def isPunctuation_def js_def)
  have sa: "quoteThenStop = (js '' - See '' @ [0x22] @ js ''it'') @ 0x22 # [0x2E]"
    by (simp add: quoteThenStop_def js_def)
  have sb: "stopQuoteStop = (js '' - See '' @ [0x22] @ js ''it.'') @ 0x22 # [0x2E]"
    by (simp add: stopQuoteStop_def js_def)
  have la: "\<not> isPunctuation (last (js '' - See '' @ [0x22] @ js ''it''))"
    by (simp add: isPunctuation_def js_def)
  have lb: "isPunctuation (last (js '' - See '' @ [0x22] @ js ''it.''))"
    by (simp add: isPunctuation_def js_def)
  from quote_punctuation_rule[OF a, of "0x22" "[0x2E]" "js '' - See '' @ [0x22] @ js ''it''"
      exampleEnv "[]"] q sa la
  have "validateListItemSuffix exampleEnv quoteThenStop []" by blast
  moreover
  from quote_punctuation_rule[OF b, of "0x22" "[0x2E]" "js '' - See '' @ [0x22] @ js ''it.''"
      exampleEnv "[]"] q sb lb
  have "\<not> validateListItemSuffix exampleEnv stopQuoteStop []" by (simp add: js_def)
  ultimately show ?thesis using a b by simp
qed

text \<open>
  As the specification words it, the property fails: the text of
  \<open>twoStopsQuote\<close> is no backticked span and ends in a quote that a terminal
  punctuation mark precedes, itself preceded by a second such mark, and the check
  passes.
\<close>

theorem quote_punctuation_rule_counterexample:
  "\<not> reFullyBackticked twoStopsQuote
   \<and> twoStopsQuote = js '' - See '' @ [0x22] @ js ''it'' @ [0x2E, 0x2E, 0x22]
   \<and> isPunctuation 0x2E \<and> isQuote 0x22
   \<and> validateListItemSuffix exampleEnv twoStopsQuote twoStopsQuote"
  by (simp add: unfold_all)

section \<open>Trailing badges\<close>


lemma lastNonBadgeLoop_negative:
  "lastNonBadgeLoop d i < 0 \<Longrightarrow> 0 \<le> j \<Longrightarrow> j \<le> i \<Longrightarrow> isBadge (d ! nat j)"
proof (induction d i rule: lastNonBadgeLoop.induct)
  case (1 d i)
  from 1(2,3,4) have b: "i \<ge> 0 \<and> isBadge (d ! nat i)"
    by (subst (asm) lastNonBadgeLoop.simps) (auto split: if_splits)
  show ?case
  proof (cases "j = i")
    case True with b show ?thesis by simp
  next
    case False
    have "lastNonBadgeLoop d (i - 1) < 0" using 1(2) b by (subst (asm) lastNonBadgeLoop.simps) simp
    from 1(1)[OF b this 1(3)] False 1(4) show ?thesis by simp
  qed
qed







section \<open>Descriptions made of badges\<close>

lemma map_filter_subset: "set (map f (filter Q xs)) \<subseteq> set (map f xs)"
  by auto

lemma removeEmoji_subset: "set (removeEmoji ext s) \<subseteq> set s"
  using map_filter_subset[of snd _ "enumerate 0 s"]
  unfolding removeEmoji_def map_snd_enumerate .

lemma blank_dropWhile: "\<forall>c \<in> set s. isWhiteSpace c \<Longrightarrow> dropWhile isWhiteSpace s = []"
  by (induction s) simp_all

lemma blank_trim: "\<forall>c \<in> set s. isWhiteSpace c \<Longrightarrow> trim s = []"
  by (simp add: trim_def trimEnd_def blank_dropWhile)

lemma blank_no_dash: "\<forall>c \<in> set s. isWhiteSpace c \<Longrightarrow> \<not> startsWith s (js '' - '')"
proof
  assume b: "\<forall>c \<in> set s. isWhiteSpace c" and "startsWith s (js '' - '')"
  then have "take (length (js '' - '')) s = js '' - ''" by (simp add: startsWith_def)
  moreover have "45 \<in> set (js '' - '')" by (simp add: js_def)
  ultimately have "45 \<in> set (take (length (js '' - '')) s)" by simp
  then have "45 \<in> set s" by (rule in_set_takeD)
  with b have "isWhiteSpace 45" by blast
  then show False by (simp add: isWhiteSpace_def)
qed

lemma blank_special:
  assumes "\<forall>c \<in> set t. isWhiteSpace c"
  shows "validateListItemSpecialCases ext d t"
proof -
  have "\<forall>c \<in> set (removeEmoji ext t). isWhiteSpace c"
    using assms removeEmoji_subset[of ext t] by blast
  then have "trim (removeEmoji ext t) = []" by (rule blank_trim)
  with blank_no_dash[OF assms] show ?thesis by (simp add: validateListItemSpecialCases_def)
qed

lemma badges_only:
  assumes "description \<noteq> []" "\<forall>n \<in> set description. isBadge n"
  shows "validateListItemDescription ext description =
     (if validateListItemSpecialCases ext description (toString (rootOf description))
      then (Some True, [])
      else (Some False,
            [(if reInvalidWhitespace (toString (description ! 0)) then InvalidWhitespace
              else if reInvalidDash (toString (description ! 0)) then InvalidDash
              else MissingDash,
              Some (description ! 0))]))"
proof (cases "validateListItemSpecialCases ext description (toString (rootOf description))")
  case True
  then show ?thesis using assms(1) by (simp add: validateListItemDescription_def)
next
  case False
  have b0: "isBadge (description ! 0)" using assms by (cases description) simp_all
  have "ntype (description ! 0) \<noteq> ''text''
        \<or> \<not> validateListItemPrefix ext (toString (rootOf description)) (toString (description ! 0))"
  proof (cases "ntype (description ! 0) = ''text''")
    case t: True
    with b0 have blank: "\<forall>c \<in> set (toString (description ! 0)). isWhiteSpace c"
      by (simp add: isBadge_def reBlank_iff)
    have "\<not> validateListItemPrefix ext (toString (rootOf description)) (toString (description ! 0))"
    proof
      assume "validateListItemPrefix ext (toString (rootOf description)) (toString (description ! 0))"
      with blank_no_dash[OF blank] have "toString (rootOf description) = toString (description ! 0)"
        by (simp add: validateListItemPrefix_def split: if_splits)
      with blank have "\<forall>c \<in> set (toString (rootOf description)). isWhiteSpace c" by simp
      from blank_special[OF this] False show False by blast
    qed
    then show ?thesis by simp
  qed simp
  with False assms(1) show ?thesis
    by (simp add: validateListItemDescription_def Let_def)
qed

lemma only_badges_unreachable:
  "(OnlyBadges, n) \<notin> set (snd (validateListItemDescription ext description))"
proof (cases "description \<noteq> [] \<and> lastNonBadgeLoop description (int (length description) - 1) < 0")
  case False
  then show ?thesis
    unfolding validateListItemDescription_def Let_def
    by (auto split: option.splits prod.splits dest!: casing_messages
          simp: validateListItemPrefixCasing_def split: list.splits if_splits)
next
  case True
  have "\<forall>n \<in> set description. isBadge n"
  proof
    fix n assume "n \<in> set description"
    then obtain j where j: "j < length description" "description ! j = n"
      by (auto simp: in_set_conv_nth)
    from True j(1) have "isBadge (description ! nat (int j))"
      by (intro lastNonBadgeLoop_negative[of description "int (length description) - 1"]) auto
    with j(2) show "isBadge n" by simp
  qed
  with True badges_only[of description ext] show ?thesis by (auto split: if_splits)
qed

text \<open>
  C1, as the code has it. A description whose nodes are all badges (inlineCode nodes and
  blank texts), one inlineCode node alone among them, does not reach the step that
  reports "only badges": either a special case accepts it, or the check of the dash
  rejects it with one of the three messages of that check, which one being decided by
  the text of the first node, and the message points at the first node.
\<close>

theorem badges_only_description:
  assumes "description \<noteq> []" "\<forall>n \<in> set description. isBadge n"
  shows "validateListItemDescription ext description =
           (if validateListItemSpecialCases ext description (toString (rootOf description))
            then (Some True, [])
            else (Some False,
                  [(if reInvalidWhitespace (toString (description ! 0)) then InvalidWhitespace
                    else if reInvalidDash (toString (description ! 0)) then InvalidDash
                    else MissingDash,
                    Some (description ! 0))]))
         \<and> (OnlyBadges, n) \<notin> set (snd (validateListItemDescription ext description))"
  using badges_only[OF assms] only_badges_unreachable by simp

theorem badges_only_description_witness:
  "list_all isBadge [blankText, betaBadge]
   \<and> validateListItemDescription exampleEnv [blankText, betaBadge]
       = (Some False, [(MissingDash, Some blankText)])"
proof -
  have h: "[blankText, betaBadge] \<noteq> []" "\<forall>n \<in> set [blankText, betaBadge]. isBadge n"
    by (simp_all add: isBadge_def node_defs regex_defs char_defs)
  have s: "\<not> validateListItemSpecialCases exampleEnv [blankText, betaBadge]
               (toString (rootOf [blankText, betaBadge]))"
    by (simp add: validateListItemSpecialCases_def example_defs string_defs node_defs
          regex_defs char_defs)
  have r: "\<not> reInvalidWhitespace (toString ([blankText, betaBadge] ! 0))"
    "\<not> reInvalidDash (toString ([blankText, betaBadge] ! 0))"
    by (simp_all add: node_defs regex_defs char_defs)
  from badges_only_description[OF h, of exampleEnv] s r h(2) show ?thesis by simp
qed

text \<open>
  As the specification words it, the property fails: a description of one inlineCode
  node is rejected, but with the message that the dash is missing.
\<close>

theorem badges_only_description_counterexample:
  "isBadge betaBadge
   \<and> validateListItemDescription exampleEnv [betaBadge]
       = (Some False, [(MissingDash, Some betaBadge)])"
  by (simp add: unfold_all)

section \<open>Casing in descriptions of mixed markup\<close>

text \<open>
  C2. What the code does: when the badge loop stops after the first node, so that the
  dash node and the last node before the badges differ, no message about casing is ever
  emitted, however long the text of the dash node is.
\<close>

theorem mixed_description_casing_skipped:
  assumes "0 < lastNonBadgeLoop description (int (length description) - 1)"
  shows "(ValidCasing, n) \<notin> set (snd (validateListItemDescription ext description))
       \<and> (NonEmptyString, n) \<notin> set (snd (validateListItemDescription ext description))"
  using assms unfolding validateListItemDescription_def Let_def nodeLength_def
  by (auto split: option.splits)

theorem mixed_description_casing_skipped_witness:
  "0 < lastNonBadgeLoop mixedDescription (int (length mixedDescription) - 1)
   \<and> 3 < length (toString smallDash)
   \<and> validateListItemPrefixCasing exampleEnv smallDash = (False, [(ValidCasing, Some smallDash)])
   \<and> validateListItemDescription exampleEnv mixedDescription = (Some True, [])
   \<and> (ValidCasing, Some smallDash)
        \<notin> set (snd (validateListItemDescription exampleEnv mixedDescription))"
proof -
  have i: "0 < lastNonBadgeLoop mixedDescription (int (length mixedDescription) - 1)"
    by (simp add: unfold_all)
  have l: "3 < length (toString smallDash)"
    by (simp add: node_defs char_defs)
  have c: "validateListItemPrefixCasing exampleEnv smallDash
             = (False, [(ValidCasing, Some smallDash)])"
    by (simp add: unfold_all)
  have d: "validateListItemDescription exampleEnv mixedDescription = (Some True, [])"
    by (simp add: unfold_all)
  from mixed_description_casing_skipped[OF i, of "Some smallDash" exampleEnv] i l c d
  show ?thesis by simp
qed

section \<open>Descriptions without punctuation\<close>

lemma reFullyBackticked_ends:
  assumes "reFullyBackticked s"
  shows "s \<noteq> [] \<and> hd s = backtick \<and> (last s = backtick \<or> isPunctuation (last s))"
proof -
  from assms have "s \<in> lang (RCat [RClass (\<lambda>c. c = backtick), RStar RDot,
      RStar (RClass isPunctuation), RClass (\<lambda>c. c = backtick), RStar (RClass isPunctuation)])"
    by (simp add: reFullyBackticked_def test_whole_iff)
  then obtain d p1 p2 where s: "s = [backtick] @ d @ p1 @ [backtick] @ p2"
    and p2: "\<forall>c \<in> set p2. isPunctuation c"
    unfolding lang_RCat_Cons lang_RCat_Nil lang_star_class lang_class by auto
  show ?thesis
  proof (cases "p2 = []")
    case True
    with s show ?thesis by simp
  next
    case False
    then have "last s = last p2" using s by simp
    with False p2 s show ?thesis by simp
  qed
qed

lemma trimEnd_keep: "\<not> isWhiteSpace c \<Longrightarrow> trimEnd (a @ c # b) = a @ c # trimEnd b"
  by (simp add: trimEnd_def dropWhile_append3)

lemma trimEnd_id: "s \<noteq> [] \<Longrightarrow> \<not> isWhiteSpace (last s) \<Longrightarrow> trimEnd s = s"
  by (cases s rule: rev_cases) (simp_all add: trimEnd_def)

lemma dash_start:
  assumes "startsWith t (js '' - '')"
  shows "\<exists>r. t @ u = 32 # 45 # r"
proof -
  from assms have "take 3 t = [32, 45, 32]" by (simp add: startsWith_def js_def numeral_3_eq_3)
  then have "t = [32, 45, 32] @ drop 3 t" by (metis append_take_drop_id)
  then have "t @ u = 32 # 45 # (32 # drop 3 t @ u)" by (metis append_Cons append_Nil append_assoc)
  then show ?thesis by blast
qed

lemma dash_not_backticked:
  assumes "startsWith t (js '' - '')"
  shows "\<not> reFullyBackticked (t @ u)" "\<not> reFullyBackticked (trimEnd (t @ u))"
proof -
  from dash_start[OF assms] obtain r where r: "t @ u = 32 # 45 # r" by blast
  have "\<not> isWhiteSpace 45" by (simp add: isWhiteSpace_def)
  from trimEnd_keep[OF this, of "[32]" r] r have t: "trimEnd (t @ u) = 32 # 45 # trimEnd r" by simp
  show "\<not> reFullyBackticked (t @ u)"
    using reFullyBackticked_ends[of "t @ u"] r by (auto simp: backtick_def)
  show "\<not> reFullyBackticked (trimEnd (t @ u))"
    using reFullyBackticked_ends[of "trimEnd (t @ u)"] t by (auto simp: backtick_def)
qed

lemma lastNonBadgeLoop_stop:
  "lastNonBadgeLoop d j = k \<Longrightarrow> k \<le> j \<and> (0 \<le> k \<longrightarrow> \<not> isBadge (d ! nat k))"
proof (induction d j rule: lastNonBadgeLoop.induct)
  case (1 d j)
  show ?case
  proof (cases "j \<ge> 0 \<and> isBadge (d ! nat j)")
    case True
    then have "lastNonBadgeLoop d (j - 1) = k" using 1(2) by (subst (asm) lastNonBadgeLoop.simps) simp
    from 1(1)[OF True this] show ?thesis by simp
  next
    case False
    then have "k = j" using 1(2) by (subst (asm) lastNonBadgeLoop.simps) auto
    with False show ?thesis by auto
  qed
qed

lemma toString_rootOf: "toString (rootOf xs) = concat (map toString xs)"
  by (simp add: rootOf_def)

lemma reached_not_backticked:
  assumes ne: "description \<noteq> []"
    and prefix: "validateListItemPrefix ext (toString (rootOf description)) (toString (description ! 0))"
    and idx: "lastNonBadgeLoop description (int (length description) - 1) = int i"
    and tx: "ntype (description ! i) = ''text''"
    and contract: "startsWith (toString (description ! 0)) (js '' - '')
        \<or> (\<forall>t. textEndsWithEmoji ext t \<longrightarrow> t \<noteq> [] \<and> last t \<noteq> backtick \<and> \<not> isWhiteSpace (last t))"
    and nop: "\<not> list_ex isPunctuation (lastSuffixText description i)"
  shows "\<not> reFullyBackticked (lastSuffixText description i)"
proof -
  obtain x xs where d: "description = x # xs" using ne by (cases description) auto
  from lastNonBadgeLoop_stop[OF idx] have nb: "\<not> isBadge (description ! i)" and il: "i < length description"
    using ne by auto
  have full: "toString (rootOf (beforeBadges description i)) = toString x @ concat (map toString (take i xs))"
    by (simp add: d beforeBadges_def toString_rootOf)
  show ?thesis
  proof (cases "startsWith (toString (description ! 0)) (js '' - '')")
    case True
    then have "startsWith (toString x) (js '' - '')" by (simp add: d)
    from dash_not_backticked[OF this, of "concat (map toString (take i xs))"] full
    show ?thesis by (simp add: lastSuffixText_def Let_def)
  next
    case False
    with contract have c: "\<forall>t. textEndsWithEmoji ext t \<longrightarrow> t \<noteq> [] \<and> last t \<noteq> backtick \<and> \<not> isWhiteSpace (last t)"
      by blast
    from prefix False have e: "textEndsWithEmoji ext (toString x)"
      and same: "toString (rootOf description) = toString x"
      by (auto simp: validateListItemPrefix_def d split: if_splits)
    from same have "concat (map toString xs) = []" by (simp add: d toString_rootOf)
    then have empty: "\<forall>n \<in> set xs. toString n = []" by simp
    have i0: "i = 0"
    proof (rule ccontr)
      assume "i \<noteq> 0"
      then have "description ! i \<in> set xs" using il d by (cases i) auto
      with empty have "toString (description ! i) = []" by blast
      then have "reBlank (toString (description ! i))" by (simp add: reBlank_iff)
      with tx have "isBadge (description ! i)" by (simp add: isBadge_def)
      with nb show False by blast
    qed
    from c e have x: "toString x \<noteq> []" "last (toString x) \<noteq> backtick" "\<not> isWhiteSpace (last (toString x))"
      by blast+
    have ft: "lastSuffixText description i = toString x"
      using i0 full trimEnd_id[OF x(1) x(3)] by (simp add: lastSuffixText_def Let_def)
    show ?thesis
    proof
      assume "reFullyBackticked (lastSuffixText description i)"
      from reFullyBackticked_ends[OF this] ft x(2) have "isPunctuation (last (toString x))" by simp
      moreover have "last (toString x) \<in> set (toString x)" using x(1) by simp
      ultimately have "list_ex isPunctuation (toString x)" by (auto simp: list_ex_iff)
      with nop ft show False by simp
    qed
  qed
qed

lemma reached_verdict:
  assumes ne: "description \<noteq> []"
    and sp: "\<not> validateListItemSpecialCases ext description (toString (rootOf description))"
    and dt: "ntype (description ! 0) = ''text''"
    and prefix: "validateListItemPrefix ext (toString (rootOf description)) (toString (description ! 0))"
    and idx: "lastNonBadgeLoop description (int (length description) - 1) = int i"
    and tx: "ntype (description ! i) = ''text''"
    and v: "\<not> validateListItemSuffix ext (lastSuffixText description i) (toString (description ! i))"
  shows "validateListItemDescription ext description
           = (Some False, [(ProperPunctuation, Some (description ! i))])"
  using assms
  by (simp add: validateListItemDescription_def Let_def listItemDescriptionSuffixNodeAllowList_def)

lemma example_contract:
  "textEndsWithEmoji exampleEnv t \<Longrightarrow> t \<noteq> [] \<and> last t \<noteq> backtick \<and> \<not> isWhiteSpace (last t)"
proof -
  assume a: "textEndsWithEmoji exampleEnv t"
  define ms where "ms = filter (\<lambda>(i, c). c = checkMark) (enumerate 0 t)"
  define m where "m = last ms"
  from a have ne: "ms \<noteq> []"
    by (auto simp: ms_def textEndsWithEmoji_def exampleEnv_def exampleEmojiMatches_def
          split: list.splits)
  then have "m \<in> set ms" unfolding m_def by (rule last_in_set)
  then have "m \<in> set (enumerate 0 t)" "snd m = checkMark"
    unfolding ms_def by auto
  then have it: "fst m < length t" "t ! fst m = checkMark"
    by (simp_all add: in_set_enumerate_eq)
  have em: "emojiMatches exampleEnv t = map (\<lambda>(i, c). (i, 1)) ms"
    by (simp add: exampleEnv_def exampleEmojiMatches_def ms_def)
  have "last (map (\<lambda>(i, c). (i, 1::nat)) ms) = (fst m, 1)"
    using ne by (cases m) (simp add: last_map m_def)
  with a ne em have "1 + fst m \<ge> length t"
    by (cases ms) (auto simp: textEndsWithEmoji_def simp del: last.simps)
  with it have fm: "fst m = length t - 1" and tn: "t \<noteq> []" by auto
  with it(2) have "t \<noteq> []" "last t = checkMark" by (simp_all add: last_conv_nth)
  then show ?thesis by (simp add: checkMark_def backtick_def isWhiteSpace_def)
qed

text \<open>
  C8. The punctuation check is called in one place, on the text of a description that
  passed the check of the dash and whose last node before the badges is a text: the
  text judged opens with " - ", or the first node ends with an emoji and is all the text
  there is. For the second case the emoji matcher is taken to find no emoji that ends
  in a backtick or in white space. When such a text holds no terminal punctuation, the
  check passes exactly when the text has at most two tokens, the last token ends with
  an emoji, and the last node's own text ends with a closing parenthesis or with an
  emoji. So with more than two tokens, or a last token that does not end with an emoji,
  the check fails, and the description gets the message about punctuation. And the
  entry of scenario E gets no message, for all collaborators that take its URL for one,
  find the check mark at the end of the two texts, and call "Done" capital.
\<close>

theorem no_punctuation_rule:
  "(description \<noteq> []
      \<and> \<not> validateListItemSpecialCases ext description (toString (rootOf description))
      \<and> ntype (description ! 0) = ''text''
      \<and> validateListItemPrefix ext (toString (rootOf description)) (toString (description ! 0))
      \<and> lastNonBadgeLoop description (int (length description) - 1) = int i
      \<and> ntype (description ! i) = ''text''
      \<and> (startsWith (toString (description ! 0)) (js '' - '')
           \<or> (\<forall>t. textEndsWithEmoji ext t
                 \<longrightarrow> t \<noteq> [] \<and> last t \<noteq> backtick \<and> \<not> isWhiteSpace (last t)))
      \<and> \<not> list_ex isPunctuation (lastSuffixText description i)
    \<longrightarrow>
      (validateListItemSuffix ext (lastSuffixText description i) (toString (description ! i))
         \<longleftrightarrow>
         length (tokenizeWords (lastSuffixText description i)) \<le> 2
         \<and> tokenizeWords (lastSuffixText description i) \<noteq> []
         \<and> textEndsWithEmoji ext (last (tokenizeWords (lastSuffixText description i)))
         \<and> (reClosingParenthesis (toString (description ! i))
              \<or> textEndsWithEmoji ext (toString (description ! i))))
      \<and> (\<not> (length (tokenizeWords (lastSuffixText description i)) \<le> 2
              \<and> tokenizeWords (lastSuffixText description i) \<noteq> []
              \<and> textEndsWithEmoji ext (last (tokenizeWords (lastSuffixText description i))))
          \<longrightarrow> validateListItemDescription ext description
                = (Some False, [(ProperPunctuation, Some (description ! i))])))
   \<and> (isUrl ext (js ''https://example.com'') \<and> textEndsWithEmoji ext [checkMark]
        \<and> textEndsWithEmoji ext (js '' - Done '' @ [checkMark])
        \<and> caseOf ext (js ''Done'') = Some ''capital''
      \<longrightarrow> validateListItem ext scenarioE = [])"
proof (intro conjI impI)
  assume h: "description \<noteq> []
      \<and> \<not> validateListItemSpecialCases ext description (toString (rootOf description))
      \<and> ntype (description ! 0) = ''text''
      \<and> validateListItemPrefix ext (toString (rootOf description)) (toString (description ! 0))
      \<and> lastNonBadgeLoop description (int (length description) - 1) = int i
      \<and> ntype (description ! i) = ''text''
      \<and> (startsWith (toString (description ! 0)) (js '' - '')
           \<or> (\<forall>t. textEndsWithEmoji ext t
                 \<longrightarrow> t \<noteq> [] \<and> last t \<noteq> backtick \<and> \<not> isWhiteSpace (last t)))
      \<and> \<not> list_ex isPunctuation (lastSuffixText description i)"
  then have nb: "\<not> reFullyBackticked (lastSuffixText description i)"
    using reached_not_backticked[of description ext i] by blast
  from h have np: "\<not> list_ex isPunctuation (lastSuffixText description i)" by blast
  show v: "validateListItemSuffix ext (lastSuffixText description i) (toString (description ! i))
         \<longleftrightarrow>
         length (tokenizeWords (lastSuffixText description i)) \<le> 2
         \<and> tokenizeWords (lastSuffixText description i) \<noteq> []
         \<and> textEndsWithEmoji ext (last (tokenizeWords (lastSuffixText description i)))
         \<and> (reClosingParenthesis (toString (description ! i))
              \<or> textEndsWithEmoji ext (toString (description ! i)))"
    by (rule no_punctuation[OF nb np])
  assume "\<not> (length (tokenizeWords (lastSuffixText description i)) \<le> 2
              \<and> tokenizeWords (lastSuffixText description i) \<noteq> []
              \<and> textEndsWithEmoji ext (last (tokenizeWords (lastSuffixText description i))))"
  with v have "\<not> validateListItemSuffix ext (lastSuffixText description i)
                   (toString (description ! i))"
    by blast
  with h show "validateListItemDescription ext description
                = (Some False, [(ProperPunctuation, Some (description ! i))])"
    using reached_verdict[of description ext i] by blast
next
  assume "isUrl ext (js ''https://example.com'') \<and> textEndsWithEmoji ext [checkMark]
        \<and> textEndsWithEmoji ext (js '' - Done '' @ [checkMark])
        \<and> caseOf ext (js ''Done'') = Some ''capital''"
  then show "validateListItem ext scenarioE = []"
    using scenarioE_valid[of ext] by blast
qed

theorem no_punctuation_rule_witness:
  "validateListItemSuffix exampleEnv (lastSuffixText [text_node doneText] 0)
       (toString (text_node doneText))
   \<and> tokenizeWords (lastSuffixText [text_node doneText] 0) = [js ''Done'', [checkMark]]
   \<and> tokenizeWords (lastSuffixText [doneNoEmoji] 0) = [js ''Done'']
   \<and> validateListItemDescription exampleEnv [doneNoEmoji]
       = (Some False, [(ProperPunctuation, Some doneNoEmoji)])
   \<and> \<not> startsWith (toString emojiLed) (js '' - '')
   \<and> validateListItemSuffix exampleEnv (lastSuffixText [emojiLed] 0) (toString emojiLed)
   \<and> validateListItem exampleEnv scenarioE = []"
proof -
  have a: "[text_node doneText] \<noteq> []
      \<and> \<not> validateListItemSpecialCases exampleEnv [text_node doneText]
            (toString (rootOf [text_node doneText]))
      \<and> ntype ([text_node doneText] ! 0) = ''text''
      \<and> validateListItemPrefix exampleEnv (toString (rootOf [text_node doneText]))
          (toString ([text_node doneText] ! 0))
      \<and> lastNonBadgeLoop [text_node doneText] (int (length [text_node doneText]) - 1) = int 0
      \<and> startsWith (toString ([text_node doneText] ! 0)) (js '' - '')
      \<and> \<not> list_ex isPunctuation (lastSuffixText [text_node doneText] 0)"
    by (simp add: unfold_all)
  have a': "tokenizeWords (lastSuffixText [text_node doneText] 0) = [js ''Done'', [checkMark]]"
    "textEndsWithEmoji exampleEnv [checkMark]"
    "textEndsWithEmoji exampleEnv (toString ([text_node doneText] ! 0))"
    by (simp_all add: unfold_all)
  have b: "[doneNoEmoji] \<noteq> []
      \<and> \<not> validateListItemSpecialCases exampleEnv [doneNoEmoji] (toString (rootOf [doneNoEmoji]))
      \<and> ntype ([doneNoEmoji] ! 0) = ''text''
      \<and> validateListItemPrefix exampleEnv (toString (rootOf [doneNoEmoji]))
          (toString ([doneNoEmoji] ! 0))
      \<and> lastNonBadgeLoop [doneNoEmoji] (int (length [doneNoEmoji]) - 1) = int 0
      \<and> startsWith (toString ([doneNoEmoji] ! 0)) (js '' - '')
      \<and> \<not> list_ex isPunctuation (lastSuffixText [doneNoEmoji] 0)"
    by (simp add: unfold_all)
  have b': "tokenizeWords (lastSuffixText [doneNoEmoji] 0) = [js ''Done'']"
    "\<not> textEndsWithEmoji exampleEnv (js ''Done'')"
    by (simp_all add: unfold_all)
  have c: "[emojiLed] \<noteq> []
      \<and> \<not> validateListItemSpecialCases exampleEnv [emojiLed] (toString (rootOf [emojiLed]))
      \<and> ntype ([emojiLed] ! 0) = ''text''
      \<and> validateListItemPrefix exampleEnv (toString (rootOf [emojiLed])) (toString ([emojiLed] ! 0))
      \<and> lastNonBadgeLoop [emojiLed] (int (length [emojiLed]) - 1) = int 0
      \<and> \<not> startsWith (toString ([emojiLed] ! 0)) (js '' - '')
      \<and> \<not> list_ex isPunctuation (lastSuffixText [emojiLed] 0)"
    by (simp add: unfold_all)
  have c': "tokenizeWords (lastSuffixText [emojiLed] 0) = [js ''Done'', [checkMark]]"
    "textEndsWithEmoji exampleEnv (toString ([emojiLed] ! 0))"
    by (simp_all add: unfold_all)
  have ct: "\<forall>t. textEndsWithEmoji exampleEnv t
              \<longrightarrow> t \<noteq> [] \<and> last t \<noteq> backtick \<and> \<not> isWhiteSpace (last t)"
    using example_contract by blast
  have f: "isUrl exampleEnv (js ''https://example.com'')"
    "textEndsWithEmoji exampleEnv (js '' - Done '' @ [checkMark])"
    "caseOf exampleEnv (js ''Done'') = Some ''capital''"
    by (simp_all add: example_defs string_defs char_defs)
  from no_punctuation_rule[of "[text_node doneText]" exampleEnv 0] a a' f
  have r1: "validateListItemSuffix exampleEnv (lastSuffixText [text_node doneText] 0)
              (toString (text_node doneText))
            \<and> validateListItem exampleEnv scenarioE = []"
    by simp
  from no_punctuation_rule[of "[doneNoEmoji]" exampleEnv 0] b b'
  have r2: "validateListItemDescription exampleEnv [doneNoEmoji]
              = (Some False, [(ProperPunctuation, Some doneNoEmoji)])"
    by simp
  from no_punctuation_rule[of "[emojiLed]" exampleEnv 0] c c' ct a'(2)
  have r3: "validateListItemSuffix exampleEnv (lastSuffixText [emojiLed] 0) (toString emojiLed)"
    by simp
  from r1 r2 r3 a' b' c show ?thesis by simp
qed

section \<open>The table of contents\<close>

lemma findAllAfter_empty:
  assumes "\<forall>k. i < k \<and> k < length (nchildren parent) \<longrightarrow> ntype (nchildren parent ! k) \<noteq> t"
  shows "findAllAfter parent i t = []"
  using assms unfolding findAllAfter_def
  by (auto simp: filter_empty_conv in_set_enumerate_eq simp del: enumerate_eq_zip)

text \<open>
  What the rule does when the heading of the contents is a child of the root: with no
  heading among the later children of the root, it returns with no message.
\<close>

lemma contents_at_root_returns:
  assumes "findNode isContents ast = Some [i]"
    "\<forall>k. i < k \<and> k < length (nchildren ast) \<longrightarrow> ntype (nchildren ast ! k) \<noteq> ''heading''"
  shows "listItemRule ext ast = Inr []"
  using assms(1) findAllAfter_empty[OF assms(2)]
  by (simp add: listItemRule_def childIndex_def)

text \<open>
  C10. What the code does when the first depth-2 heading with the text "Contents", in
  document order, is not a child of the root (it stands inside a block quote or a list
  item): \<open>find\<close> finds it anywhere in the tree, the lookup of it among the children of
  the root fails, and the rule throws instead of returning with no message, also when
  no heading follows it.
\<close>

theorem contents_nested_throws:
  assumes "findNode isContents ast = Some path" "length path \<noteq> 1"
  shows "listItemRule ext ast = Inl ExpectedChildNode"
proof -
  have "childIndex path = Inl ExpectedChildNode"
    using assms(2) by (cases path rule: list.exhaust; cases "tl path") (auto simp: childIndex_def)
  with assms(1) show ?thesis by (simp add: listItemRule_def)
qed

theorem contents_nested_throws_witness:
  "isContents contentsHeading
   \<and> findNode isContents nestedTocDocument = Some [0, 0]
   \<and> filter (\<lambda>n. ntype n = ''heading'') (allNodes nestedTocDocument) = [contentsHeading]
   \<and> listItemRule exampleEnv nestedTocDocument = Inl ExpectedChildNode
   \<and> findNode isContents tocDocument = Some [0]
   \<and> listItemRule exampleEnv tocDocument = Inr []"
proof -
  have f: "findNode isContents nestedTocDocument = Some [0, 0]"
    by (simp add: rule_defs unfold_all)
  have l: "length [0::nat, 0] \<noteq> 1" by simp
  have r: "listItemRule exampleEnv nestedTocDocument = Inl ExpectedChildNode"
    by (rule contents_nested_throws[OF f l])
  have o: "isContents contentsHeading
     \<and> filter (\<lambda>n. ntype n = ''heading'') (allNodes nestedTocDocument) = [contentsHeading]
     \<and> findNode isContents tocDocument = Some [0]
     \<and> listItemRule exampleEnv tocDocument = Inr []"
    by (simp add: rule_defs unfold_all)
  from f r o show ?thesis by simp
qed

end
